(* ===== verification/Prelude.thy ===== *)
theory Prelude
  imports Main "HOL-Library.Finite_Map" "HOL-Library.Sublist" "HOL-Library.Char_ord"
    "HOL-Library.List_Lexorder"
begin

text \<open>
  What the other theories share: the theorem collections of the development, Go's maps
  (\<open>gomap\<close>, where \<open>None\<close> is the nil map), and generic lemmas on lists,
  options and finite maps.
\<close>

named_theorems go_lib \<open>unfolding equations for the Go standard library functions\<close>
named_theorems meta_simps \<open>what the operations do to object metadata\<close>
named_theorems trace_intros \<open>introduction rules for statements about the call history\<close>

section \<open>Go maps\<close>

text \<open>
  A Go \<^verbatim>\<open>map[string]string\<close>: \<open>None\<close> is nil, \<open>Some m\<close> an allocated map. Reading a nil map
  is allowed; writing to one panics, which is why the code allocates first.
\<close>

type_synonym gomap = "(string, string) fmap option"

text \<open>\<open>m[k]\<close> in a comma-ok assignment, and \<open>m[k]\<close> alone (the zero value when absent).\<close>

definition mapLookup :: "gomap \<Rightarrow> string \<Rightarrow> string option" where
  "mapLookup m k = (case m of None \<Rightarrow> None | Some f \<Rightarrow> fmlookup f k)"

definition mapIndex :: "gomap \<Rightarrow> string \<Rightarrow> string" where
  "mapIndex m k = (case mapLookup m k of None \<Rightarrow> [] | Some v \<Rightarrow> v)"

text \<open>The entries a map holds, nil and empty alike.\<close>

definition mapEntries :: "gomap \<Rightarrow> (string, string) fmap" where
  "mapEntries m = (case m of None \<Rightarrow> fmempty | Some f \<Rightarrow> f)"

text \<open>
  \<^verbatim>\<open>for k, v := range m\<close> visits every entry once, in an order Go leaves open. The model visits
  them sorted by key; \<open>range_perm\<close> lemmas show where the order does not matter.
\<close>

definition mapRange :: "gomap \<Rightarrow> (string \<times> string) list" where
  "mapRange m = sorted_list_of_fmap (mapEntries m)"

lemma mapLookup_entries: "mapLookup m k = fmlookup (mapEntries m) k"
  by (simp add: mapLookup_def mapEntries_def split: option.split)

lemma mapLookup_None [simp]: "mapLookup None k = None"
  by (simp add: mapLookup_def)

lemma mapLookup_Some [simp]: "mapLookup (Some f) k = fmlookup f k"
  by (simp add: mapLookup_def)

lemma mapIndex_lookup: "mapLookup m k = Some v \<Longrightarrow> mapIndex m k = v"
  by (simp add: mapIndex_def)

lemma mapIndex_upd [simp]:
  "mapIndex (Some (fmupd k v f)) k' = (if k = k' then v else mapIndex (Some f) k')"
  by (simp add: mapIndex_def)

lemma mapRange_map_of [simp]: "map_of (mapRange m) = fmlookup (mapEntries m)"
  by (simp add: mapRange_def)

lemma mapRange_distinct: "distinct (map fst (mapRange m))"
  by (simp add: mapRange_def sorted_list_of_fmap_def comp_def sorted_list_of_fset.rep_eq)

section \<open>Generic lemmas\<close>

lemma foldl_append_induct [consumes 0, case_names Nil snoc]:
  assumes "P [] a" and "\<And>xs x b. P xs b \<Longrightarrow> P (xs @ [x]) (f b x)"
  shows "P xs (foldl f a xs)"
  by (induction xs rule: rev_induct) (auto intro: assms)

lemma list_ex_iff_filter: "list_ex P xs \<longleftrightarrow> filter P xs \<noteq> []"
  by (induction xs) auto

lemma dropWhile_shorter: "dropWhile P xs \<noteq> xs \<Longrightarrow> length (dropWhile P xs) < length xs"
  by (cases xs) (auto simp: length_dropWhile_le le_imp_less_Suc split: if_splits)

end
