(* ===== verification/GoLib.thy ===== *)
theory GoLib
  imports Prelude
begin

text \<open>
  The parts of Go's standard library the controller calls: strings as bytes, decimal and quoted
  formatting, \<open>errors\<close> (\<open>New\<close>, \<open>Join\<close>, \<open>Is\<close>, wrapping with \<open>%w\<close>), UTF-8 decoding and the RFC 3339
  layout of \<open>time.Time\<close>. A Go string is a list of bytes, and so is an Isabelle \<open>string\<close>.
\<close>

section \<open>Strings\<close>

text \<open>\<open>strings.HasPrefix\<close>, \<open>strings.Join\<close>, and \<open>strings.ReplaceAll\<close> for an old string of one byte.\<close>

definition hasPrefix :: "string \<Rightarrow> string \<Rightarrow> bool" where
  "hasPrefix s p = prefix p s"

fun stringsJoin :: "string list \<Rightarrow> string \<Rightarrow> string" where
  "stringsJoin [] sep = []"
| "stringsJoin [s] sep = s"
| "stringsJoin (s # t # ss) sep = s @ sep @ stringsJoin (t # ss) sep"

definition replaceByte :: "string \<Rightarrow> char \<Rightarrow> string \<Rightarrow> string" where
  "replaceByte s old new = concat (map (\<lambda>c. if c = old then new else [c]) s)"

definition newline :: char where
  "newline = CHR 0x0A"

lemma replaceByte_append: "replaceByte (s @ t) c new = replaceByte s c new @ replaceByte t c new"
  by (simp add: replaceByte_def)

lemma replaceByte_absent: "c \<notin> set new \<Longrightarrow> c \<notin> set (replaceByte s c new)"
  by (induction s) (auto simp: replaceByte_def)

lemma replaceByte_join:
  "replaceByte (stringsJoin ss [c]) c new = stringsJoin (map (\<lambda>s. replaceByte s c new) ss) new"
proof (induction ss "[c]" rule: stringsJoin.induct)
  case (3 s t ss)
  then show ?case
    by (simp add: replaceByte_append) (simp add: replaceByte_def)
qed (simp_all add: replaceByte_def)

section \<open>Formatting\<close>

text \<open>\<open>%d\<close> of a non-negative count.\<close>

fun digits :: "nat \<Rightarrow> string" where
  "digits n = (if n < 10 then [char_of (48 + n)] else digits (n div 10) @ [char_of (48 + n mod 10)])"

declare digits.simps [simp del]

text \<open>\<open>%d\<close> of an integer.\<close>

definition showInt :: "int \<Rightarrow> string" where
  "showInt i = (if i < 0 then ''-'' @ digits (nat (- i)) else digits (nat i))"

text \<open>A number padded with zeros to a width, as time layouts do.\<close>

definition padded :: "nat \<Rightarrow> nat \<Rightarrow> string" where
  "padded w n = (let d = digits n in replicate (w - length d) (CHR ''0'') @ d)"

lemma digits_nonempty [simp]: "digits n \<noteq> []"
  by (subst digits.simps) simp

lemma showInt_of_nat: "showInt (int n) = digits n"
  by (simp add: showInt_def)

section \<open>Errors\<close>

text \<open>
  A Go \<open>error\<close> value that is not nil. \<open>ErrSentinel\<close> is a package-level variable made by
  \<open>errors.New\<close>, compared by identity (its name); \<open>ErrNew\<close> one made inside a function, equal to no
  sentinel; \<open>ErrWrap\<close> the result of \<open>fmt.Errorf\<close> with one \<open>%w\<close>: the formatted message and the error it
  wraps; \<open>ErrJoin\<close> that of \<open>errors.Join\<close>; \<open>ErrApi\<close> an error the Kubernetes libraries return, with a
  reason and a message. A nil \<open>error\<close> is \<open>None\<close>.
\<close>

datatype goerr =
    ErrNew string
  | ErrSentinel string string
  | ErrWrap string goerr
  | ErrJoin "goerr list"
  | ErrApi string string

text \<open>The \<open>Error()\<close> method.\<close>

fun errorMsg :: "goerr \<Rightarrow> string" where
  "errorMsg (ErrNew m) = m"
| "errorMsg (ErrSentinel n m) = m"
| "errorMsg (ErrWrap m e) = m"
| "errorMsg (ErrJoin es) = stringsJoin (map errorMsg es) [newline]"
| "errorMsg (ErrApi r m) = m"

text \<open>\<open>errors.Is\<close> against a sentinel: the error itself or anything it wraps.\<close>

fun errorsIs :: "goerr \<Rightarrow> goerr \<Rightarrow> bool" where
  "errorsIs (ErrNew m) t = False"
| "errorsIs (ErrSentinel n m) t = (ErrSentinel n m = t)"
| "errorsIs (ErrWrap m e) t = errorsIs e t"
| "errorsIs (ErrJoin es) t = list_ex (\<lambda>e. errorsIs e t) es"
| "errorsIs (ErrApi r m) t = False"

text \<open>\<open>errors.Join\<close> of errors that are not nil: nil when there are none.\<close>

definition errorsJoin :: "goerr list \<Rightarrow> goerr option" where
  "errorsJoin es = (if es = [] then None else Some (ErrJoin es))"

text \<open>\<open>fmt.Errorf("%w: " ..., e)\<close>: the wrapped error's message, a colon, the rest.\<close>

definition wrapFront :: "goerr \<Rightarrow> string \<Rightarrow> goerr" where
  "wrapFront e msg = ErrWrap (errorMsg e @ '': '' @ msg) e"

text \<open>\<open>fmt.Errorf("... : %w", e)\<close>: the text, a colon, the wrapped error's message.\<close>

definition wrapBack :: "string \<Rightarrow> goerr \<Rightarrow> goerr" where
  "wrapBack msg e = ErrWrap (msg @ '': '' @ errorMsg e) e"

lemma errorsIs_wrap [simp]:
  "errorsIs (wrapFront e m) t = errorsIs e t" "errorsIs (wrapBack m e) t = errorsIs e t"
  by (simp_all add: wrapFront_def wrapBack_def)

section \<open>UTF-8\<close>

text \<open>
  \<open>utf8.DecodeRuneInString\<close>: the first rune of a string and its width in bytes; the replacement
  character with width 1 on an invalid encoding, with width 0 on the empty string.
\<close>

definition runeError :: nat where
  "runeError = 0xFFFD"

definition byteVal :: "char \<Rightarrow> nat" where
  "byteVal c = of_char c"

definition inByteRange :: "nat \<Rightarrow> nat \<Rightarrow> char \<Rightarrow> bool" where
  "inByteRange lo hi c = (lo \<le> byteVal c \<and> byteVal c \<le> hi)"

text \<open>The range the second byte must be in, by the first one.\<close>

definition secondRange :: "nat \<Rightarrow> nat \<times> nat" where
  "secondRange b =
     (if b = 0xE0 then (0xA0, 0xBF) else if b = 0xED then (0x80, 0x9F)
      else if b = 0xF0 then (0x90, 0xBF) else if b = 0xF4 then (0x80, 0x8F) else (0x80, 0xBF))"

definition decodeRune :: "string \<Rightarrow> nat \<times> nat" where
  "decodeRune s = (case s of
     [] \<Rightarrow> (runeError, 0)
   | c # cs \<Rightarrow>
      (let b = byteVal c; (lo, hi) = secondRange b in
       if b < 0x80 then (b, 1)
       else if b < 0xC2 \<or> 0xF4 < b then (runeError, 1)
       else case cs of
         [] \<Rightarrow> (runeError, 1)
       | c1 # cs1 \<Rightarrow>
          (if \<not> inByteRange lo hi c1 then (runeError, 1)
           else if b < 0xE0 then ((b - 0xC0) * 64 + (byteVal c1 - 0x80), 2)
           else case cs1 of
             [] \<Rightarrow> (runeError, 1)
           | c2 # cs2 \<Rightarrow>
              (if \<not> inByteRange 0x80 0xBF c2 then (runeError, 1)
               else if b < 0xF0
               then ((b - 0xE0) * 4096 + (byteVal c1 - 0x80) * 64 + (byteVal c2 - 0x80), 3)
               else case cs2 of
                 [] \<Rightarrow> (runeError, 1)
               | c3 # cs3 \<Rightarrow>
                  (if \<not> inByteRange 0x80 0xBF c3 then (runeError, 1)
                   else ((b - 0xF0) * 262144 + (byteVal c1 - 0x80) * 4096
                         + (byteVal c2 - 0x80) * 64 + (byteVal c3 - 0x80), 4))))))"

text \<open>The rest of a string after its first rune.\<close>

definition runeTail :: "string \<Rightarrow> string" where
  "runeTail s = drop (snd (decodeRune s)) s"

lemma decodeRune_width_pos: "s \<noteq> [] \<Longrightarrow> 0 < snd (decodeRune s)"
  by (auto simp: decodeRune_def Let_def split: list.splits prod.splits)

lemma decodeRune_width_le: "snd (decodeRune s) \<le> length s"
  by (auto simp: decodeRune_def Let_def split: list.splits prod.splits)

lemma runeTail_shorter: "s \<noteq> [] \<Longrightarrow> length (runeTail s) < length s"
  using decodeRune_width_pos [of s] by (cases s) (auto simp: runeTail_def)

lemma runeTail_length_le: "length (runeTail s) \<le> length s"
  by (simp add: runeTail_def)

definition asciiByte :: "char \<Rightarrow> bool" where
  "asciiByte c = (byteVal c < 0x80)"

lemma decodeRune_ascii: "asciiByte c \<Longrightarrow> decodeRune (c # cs) = (byteVal c, 1)"
  by (simp add: decodeRune_def asciiByte_def Let_def split: prod.splits)

lemma runeTail_ascii: "asciiByte c \<Longrightarrow> runeTail (c # cs) = cs"
  by (simp add: runeTail_def decodeRune_ascii)

section \<open>Quoting\<close>

definition hexDigit :: "nat \<Rightarrow> char" where
  "hexDigit n = (if n < 10 then char_of (48 + n) else char_of (87 + n))"

fun hexDigits :: "nat \<Rightarrow> nat \<Rightarrow> string" where
  "hexDigits 0 n = []"
| "hexDigits (Suc w) n = hexDigits w (n div 16) @ [hexDigit (n mod 16)]"

text \<open>
  \<open>%q\<close> (\<open>strconv.Quote\<close>): printable runes as they are, the rest escaped. Which runes from 0x80 on are
  printable is a table of the Unicode standard generated into Go's library, so it is the parameter
  \<open>wide\<close>; below 0x80 they are the bytes 0x20 to 0x7e.
\<close>

definition quoteRune :: "(nat \<Rightarrow> bool) \<Rightarrow> string \<Rightarrow> string" where
  "quoteRune wide s = (let (r, n) = decodeRune s; b = byteVal (hd s); bs = CHR 0x5C in
     if r = runeError \<and> n = 1 then bs # CHR ''x'' # hexDigits 2 b
     else if r = 0x22 \<or> r = 0x5C then [bs, hd s]
     else if (r < 0x80 \<and> 0x20 \<le> r \<and> r < 0x7F) \<or> (0x80 \<le> r \<and> wide r) then take n s
     else if r = 7 then [bs, CHR ''a''] else if r = 8 then [bs, CHR ''b'']
     else if r = 12 then [bs, CHR ''f''] else if r = 10 then [bs, CHR ''n'']
     else if r = 13 then [bs, CHR ''r''] else if r = 9 then [bs, CHR ''t'']
     else if r = 11 then [bs, CHR ''v'']
     else if r < 0x20 \<or> r = 0x7F then bs # CHR ''x'' # hexDigits 2 r
     else if r < 0x10000 then bs # CHR ''u'' # hexDigits 4 r
     else bs # CHR ''U'' # hexDigits 8 r)"

function quoteBody :: "(nat \<Rightarrow> bool) \<Rightarrow> string \<Rightarrow> string" where
  "quoteBody wide s = (if s = [] then [] else quoteRune wide s @ quoteBody wide (runeTail s))"
  by pat_completeness auto
termination
  by (relation "measure (\<lambda>(w, s). length s)") (auto simp: runeTail_shorter)

declare quoteBody.simps [simp del]

definition goQuote :: "(nat \<Rightarrow> bool) \<Rightarrow> string \<Rightarrow> string" where
  "goQuote wide s = CHR 0x22 # quoteBody wide s @ [CHR 0x22]"

section \<open>Time\<close>

text \<open>
  A \<open>time.Time\<close>: seconds since the Unix epoch, nanoseconds within the second, and the offset of its
  location from UTC in seconds.
\<close>

record goTime =
  unixSec :: int
  nanos :: nat
  zoneOffset :: int

text \<open>The civil date of a day counted from 1970-01-01, by years of 400-year eras.\<close>

definition civil :: "int \<Rightarrow> int \<times> int \<times> int" where
  "civil days =
     (let z = days + 719468;
          era = z div 146097;
          doe = z mod 146097;
          yoe = (doe - doe div 1460 + doe div 36524 - doe div 146096) div 365;
          doy = doe - (365 * yoe + yoe div 4 - yoe div 100);
          mp = (5 * doy + 2) div 153;
          d = doy - (153 * mp + 2) div 5 + 1;
          m = (if mp < 10 then mp + 3 else mp - 9);
          y = yoe + era * 400 + (if m \<le> 2 then 1 else 0)
      in (y, m, d))"

text \<open>\<open>Format(time.RFC3339)\<close>, the layout \<^verbatim>\<open>2006-01-02T15:04:05Z07:00\<close>.\<close>

definition zoneSuffix :: "int \<Rightarrow> string" where
  "zoneSuffix off =
     (let mins = (if off < 0 then - ((- off) div 60) else off div 60); a = nat (abs mins) in
      if off = 0 then ''Z''
      else (if mins < 0 then ''-'' else ''+'') @ padded 2 (a div 60) @ '':'' @ padded 2 (a mod 60))"

definition showYear :: "int \<Rightarrow> string" where
  "showYear y = (if y < 0 then ''-'' @ padded 4 (nat (- y)) else padded 4 (nat y))"

definition rfc3339 :: "goTime \<Rightarrow> string" where
  "rfc3339 t =
     (let l = unixSec t + zoneOffset t; (y, m, d) = civil (l div 86400); s = nat (l mod 86400) in
      showYear y @ ''-'' @ padded 2 (nat m) @ ''-'' @ padded 2 (nat d) @ ''T''
      @ padded 2 (s div 3600) @ '':'' @ padded 2 (s div 60 mod 60) @ '':'' @ padded 2 (s mod 60)
      @ zoneSuffix (zoneOffset t))"

text \<open>\<open>t.Sub(u)\<close> in nanoseconds.\<close>

definition timeSub :: "goTime \<Rightarrow> goTime \<Rightarrow> int" where
  "timeSub t u =
     (let d = (unixSec t - unixSec u) * 1000000000 + int (nanos t) - int (nanos u)
      in max (- (2 ^ 63)) (min (2 ^ 63 - 1) d))"

lemmas [go_lib] = hasPrefix_def replaceByte_def newline_def errorsJoin_def wrapFront_def wrapBack_def

end
