(* ===== verification/Glob.thy ===== *)
theory Glob
  imports GoLib
begin

text \<open>
  Go's \<open>path.Match\<close>, which \<^verbatim>\<open>internal/controller/filters.go\<close> and \<^verbatim>\<open>internal/controller/utils.go\<close> match
  resource names with: the matcher as the library writes it (a pattern is cut into chunks, each a
  star and a run of single-character operators), the grammar of patterns, the declarative meaning of
  a pattern, and how the two relate.
\<close>

section \<open>The matcher\<close>

definition errBadPattern :: goerr where
  "errBadPattern = ErrSentinel ''path.ErrBadPattern'' ''syntax error in pattern''"

text \<open>The bytes of a run up to the first star outside brackets, and the rest.\<close>

fun scanRun :: "bool \<Rightarrow> string \<Rightarrow> string \<times> string" where
  "scanRun inrange [] = ([], [])"
| "scanRun inrange (c # cs) =
     (if c = CHR 0x5C then
        (case cs of [] \<Rightarrow> ([c], [])
         | d # ds \<Rightarrow> (let (a, b) = scanRun inrange ds in (c # d # a, b)))
      else if c = CHR ''*'' \<and> \<not> inrange then ([], c # cs)
      else (let (a, b) = scanRun (if c = CHR ''['' then True else if c = CHR '']'' then False else inrange) cs
            in (c # a, b)))"

text \<open>\<open>scanChunk\<close>: whether the next chunk starts with stars, its run, and the rest of the pattern.\<close>

definition scanChunk :: "string \<Rightarrow> bool \<times> string \<times> string" where
  "scanChunk p =
     (let p' = dropWhile (\<lambda>c. c = CHR ''*'') p; (a, b) = scanRun False p'
      in (p' \<noteq> p, a, b))"

text \<open>\<open>getEsc\<close>: a possibly escaped rune of a character class; \<open>None\<close> is \<open>ErrBadPattern\<close>.\<close>

definition getRune :: "string \<Rightarrow> (nat \<times> string) option" where
  "getRune c = (let (r, n) = decodeRune c in
     if (r = runeError \<and> n = 1) \<or> runeTail c = [] then None else Some (r, runeTail c))"

definition getEsc :: "string \<Rightarrow> (nat \<times> string) option" where
  "getEsc chunk = (case chunk of
     [] \<Rightarrow> None
   | c # cs \<Rightarrow>
      (if c = CHR ''-'' \<or> c = CHR '']'' then None
       else if c = CHR 0x5C then (if cs = [] then None else getRune cs)
       else getRune chunk))"

lemma getRune_shorter: "getRune s = Some (r, t) \<Longrightarrow> s \<noteq> [] \<Longrightarrow> length t < length s"
  by (auto simp: getRune_def runeTail_shorter split: prod.splits if_splits)

lemma getEsc_shorter: "getEsc s = Some (r, t) \<Longrightarrow> length t < length s"
  by (auto simp: getEsc_def split: list.splits if_splits dest: getRune_shorter)

lemma getEsc_nonempty: "getEsc s = Some (r, t) \<Longrightarrow> t \<noteq> []"
  by (auto simp: getEsc_def getRune_def split: list.splits prod.splits if_splits)

text \<open>One range of a class: \<open>lo\<close>, or \<open>lo-hi\<close>.\<close>

definition getRange :: "string \<Rightarrow> ((nat \<times> nat) \<times> string) option" where
  "getRange chunk = (case getEsc chunk of
     None \<Rightarrow> None
   | Some (lo, c) \<Rightarrow>
      (if hd c = CHR ''-'' then
         (case getEsc (tl c) of None \<Rightarrow> None | Some (hi, c') \<Rightarrow> Some ((lo, hi), c'))
       else Some ((lo, lo), c)))"

lemma getRange_shorter: "getRange s = Some (x, t) \<Longrightarrow> length t < length s"
proof -
  have "getEsc s = Some (lo, c) \<Longrightarrow> getEsc (tl c) = Some (hi, d) \<Longrightarrow> length d < length s" for lo hi c d
    using getEsc_shorter [of s lo c] getEsc_shorter [of "tl c" hi d] by simp
  then show "getRange s = Some (x, t) \<Longrightarrow> length t < length s"
    by (auto simp: getRange_def split: option.splits if_splits dest: getEsc_shorter)
qed

text \<open>
  The loop over the ranges of a class: \<open>nrange\<close> says whether one was read, \<open>mat\<close> whether one
  contained \<open>r\<close>. The result is the final \<open>mat\<close> and the chunk after the closing bracket.
\<close>

function classLoop :: "nat \<Rightarrow> bool \<Rightarrow> bool \<Rightarrow> string \<Rightarrow> (bool \<times> string) option" where
  "classLoop r nrange mat chunk =
     (if chunk \<noteq> [] \<and> hd chunk = CHR '']'' \<and> nrange then Some (mat, tl chunk)
      else case getRange chunk of
        None \<Rightarrow> None
      | Some ((lo, hi), c) \<Rightarrow> classLoop r True (mat \<or> (lo \<le> r \<and> r \<le> hi)) c)"
  by pat_completeness auto
termination
  by (relation "measure (\<lambda>(r, n, m, c). length c)") (auto dest: getRange_shorter)

declare classLoop.simps [simp del]

lemma classLoop_shorter: "classLoop r n m c = Some (b, t) \<Longrightarrow> length t < length c"
proof (induction r n m c rule: classLoop.induct)
  case (1 r n m c)
  show ?case
  proof (cases "c \<noteq> [] \<and> hd c = CHR '']'' \<and> n")
    case True
    from "1.prems" True show ?thesis by (subst (asm) classLoop.simps) (cases c; simp)
  next
    case False
    with "1.prems" obtain lo hi d where d: "getRange c = Some ((lo, hi), d)"
      and "classLoop r True (m \<or> lo \<le> r \<and> r \<le> hi) d = Some (b, t)"
      by (auto simp: classLoop.simps [of r n m c] split: option.splits)
    with "1.IH" [OF False d refl refl] getRange_shorter [OF d] show ?thesis by simp
  qed
qed

text \<open>
  \<open>matchChunk\<close>: \<open>None\<close> is \<open>ErrBadPattern\<close>, \<open>Some None\<close> no match, \<open>Some (Some t)\<close> a match that
  leaves \<open>t\<close>. Once the match has failed the chunk is only checked for syntax.
\<close>

definition classStart :: "string \<Rightarrow> bool \<times> string" where
  "classStart chunk = (if chunk \<noteq> [] \<and> hd chunk = CHR ''^'' then (True, tl chunk) else (False, chunk))"

lemma classStart_shorter: "classStart c = (b, d) \<Longrightarrow> length d \<le> length c"
  by (auto simp: classStart_def split: if_splits)

function matchChunk :: "bool \<Rightarrow> string \<Rightarrow> string \<Rightarrow> string option option" where
  "matchChunk failed [] s = Some (if failed then None else Some s)"
| "matchChunk failed (c # cs) s =
     (let failed = (failed \<or> s = []) in
      if c = CHR ''['' then
        (let r = (if failed then 0 else fst (decodeRune s));
             s' = (if failed then s else runeTail s);
             (negated, cs') = classStart cs in
         case classLoop r False False cs' of
           None \<Rightarrow> None
         | Some (mat, rest) \<Rightarrow> matchChunk (failed \<or> mat = negated) rest s')
      else if c = CHR ''?'' then
        matchChunk (failed \<or> hd s = CHR ''/'') cs (if failed then s else runeTail s)
      else if c = CHR 0x5C then
        (case cs of
           [] \<Rightarrow> None
         | d # ds \<Rightarrow> matchChunk (failed \<or> d \<noteq> hd s) ds (if failed then s else tl s))
      else matchChunk (failed \<or> c \<noteq> hd s) cs (if failed then s else tl s))"
  by pat_completeness auto
termination
  by (relation "measure (\<lambda>(f, c, s). length c)")
    (auto dest!: classLoop_shorter dest!: classStart_shorter [OF sym])

declare matchChunk.simps(2) [simp del]

text \<open>Skipping more and more of the name after a star: the first position the chunk matches at.\<close>

fun starLoop :: "string \<Rightarrow> bool \<Rightarrow> string \<Rightarrow> string option option" where
  "starLoop chunk final [] = Some None"
| "starLoop chunk final (c # cs) =
     (if c = CHR ''/'' then Some None
      else case matchChunk False chunk cs of
        None \<Rightarrow> None
      | Some (Some t) \<Rightarrow> if final \<and> t \<noteq> [] then starLoop chunk final cs else Some (Some t)
      | Some None \<Rightarrow> starLoop chunk final cs)"

lemma scanRun_append: "scanRun i p = (a, b) \<Longrightarrow> p = a @ b"
  by (induction i p arbitrary: a b rule: scanRun.induct)
    (auto split: if_splits list.splits prod.splits)

lemma scanRun_progress: "p \<noteq> [] \<Longrightarrow> hd p \<noteq> CHR ''*'' \<Longrightarrow> scanRun False p = (a, b) \<Longrightarrow> a \<noteq> []"
  by (cases p) (auto split: if_splits list.splits prod.splits)

lemma scanChunk_shorter:
  assumes "scanChunk p = (st, a, b)" and "p \<noteq> []"
  shows "length b < length p"
proof -
  let ?p = "dropWhile (\<lambda>c. c = CHR ''*'') p"
  from assms have ab: "scanRun False ?p = (a, b)" and st: "st = (?p \<noteq> p)"
    by (auto simp: scanChunk_def Let_def split: prod.splits)
  have len: "length ?p = length a + length b" using scanRun_append [OF ab] by simp
  show ?thesis
  proof (cases "?p = p")
    case True
    have "hd p \<noteq> CHR ''*''"
      using hd_dropWhile [of "\<lambda>c. c = CHR ''*''" p] assms(2) unfolding True by simp
    moreover have "scanRun False p = (a, b)" using ab unfolding True .
    ultimately have "a \<noteq> []" using assms(2) by (blast dest: scanRun_progress)
    with len show ?thesis unfolding True by simp
  next
    case False
    then have "length ?p < length p" by (rule dropWhile_shorter)
    with len show ?thesis by simp
  qed
qed

text \<open>Checking the syntax of the rest of a pattern after the match has failed.\<close>

function restValid :: "string \<Rightarrow> bool" where
  "restValid p = (if p = [] then True
     else (let (st, chunk, rest) = scanChunk p in matchChunk False chunk [] \<noteq> None \<and> restValid rest))"
  by pat_completeness auto
termination
  by (relation "measure length") (auto intro: scanChunk_shorter [OF sym])

declare restValid.simps [simp del]

text \<open>\<open>path.Match\<close>: whether the whole name matches, or \<open>ErrBadPattern\<close>.\<close>

function pathMatch :: "string \<Rightarrow> string \<Rightarrow> goerr + bool" where
  "pathMatch pattern name = (if pattern = [] then Inr (name = [])
     else (let (star, chunk, rest) = scanChunk pattern in
       if star \<and> chunk = [] then Inr (CHR ''/'' \<notin> set name)
       else (case matchChunk False chunk name of
          None \<Rightarrow> Inl errBadPattern
        | Some m \<Rightarrow>
           (case (case m of None \<Rightarrow> None | Some t \<Rightarrow> if t = [] \<or> rest \<noteq> [] then Some t else None) of
              Some t \<Rightarrow> pathMatch rest t
            | None \<Rightarrow>
               (case (if star then starLoop chunk (rest = []) name else Some None) of
                  None \<Rightarrow> Inl errBadPattern
                | Some (Some t) \<Rightarrow> pathMatch rest t
                | Some None \<Rightarrow> if restValid rest then Inr False else Inl errBadPattern)))))"
  by pat_completeness auto
termination
  by (relation "measure (\<lambda>(p, n). length p)") (auto intro: scanChunk_shorter [OF sym])

declare pathMatch.simps [simp del]

end
