(* ===== verification/GlobSpec.thy ===== *)
theory GlobSpec
  imports Glob
begin

text \<open>
  The specification of \<open>path.Match\<close>: the grammar of patterns (\<open>parseGlob\<close>), what a pattern means
  (\<open>gmatch\<close>), and the proofs that the matcher reports an error exactly for the strings outside the
  grammar, whatever the name, and that on names of ASCII bytes without a slash, which Kubernetes
  object names are, it decides the meaning.
\<close>

section \<open>Grammar and meaning\<close>

datatype tok = TStar | TAny | TLit char | TClass bool "(nat \<times> nat) list"

function parseRanges :: "bool \<Rightarrow> string \<Rightarrow> ((nat \<times> nat) list \<times> string) option" where
  "parseRanges seen c =
     (if c \<noteq> [] \<and> hd c = CHR '']'' \<and> seen then Some ([], tl c)
      else case getRange c of
        None \<Rightarrow> None
      | Some (x, c') \<Rightarrow> map_option (\<lambda>(xs, r). (x # xs, r)) (parseRanges True c'))"
  by pat_completeness auto
termination
  by (relation "measure (\<lambda>(n, c). length c)") (auto dest: getRange_shorter)

declare parseRanges.simps [simp del]

lemma parseRanges_shorter: "parseRanges n c = Some (xs, t) \<Longrightarrow> length t < length c"
proof (induction n c arbitrary: xs rule: parseRanges.induct)
  case (1 n c)
  show ?case
  proof (cases "c \<noteq> [] \<and> hd c = CHR '']'' \<and> n")
    case True
    from "1.prems" True show ?thesis by (subst (asm) parseRanges.simps) (cases c; simp)
  next
    case False
    from "1.prems" obtain x d ys where d: "getRange c = Some (x, d)" and "parseRanges True d = Some (ys, t)"
      by (subst (asm) parseRanges.simps) (auto simp: False split: option.splits prod.splits if_splits)
    with "1.IH" [OF False d refl] getRange_shorter [OF d] show ?thesis by simp
  qed
qed

function parseGlob :: "string \<Rightarrow> tok list option" where
  "parseGlob [] = Some []"
| "parseGlob (c # cs) =
     (if c = CHR ''*'' then map_option ((#) TStar) (parseGlob cs)
      else if c = CHR ''?'' then map_option ((#) TAny) (parseGlob cs)
      else if c = CHR ''['' then
        (let (negated, cs') = classStart cs in
         case parseRanges False cs' of
           None \<Rightarrow> None
         | Some (xs, t) \<Rightarrow> map_option ((#) (TClass negated xs)) (parseGlob t))
      else if c = CHR 0x5C then
        (case cs of [] \<Rightarrow> None | d # ds \<Rightarrow> map_option ((#) (TLit d)) (parseGlob ds))
      else map_option ((#) (TLit c)) (parseGlob cs))"
  by pat_completeness auto
termination
  by (relation "measure length")
    (auto dest!: parseRanges_shorter classStart_shorter [OF sym])

declare parseGlob.simps(2) [simp del]

definition inRanges :: "nat \<Rightarrow> (nat \<times> nat) list \<Rightarrow> bool" where
  "inRanges r xs = list_ex (\<lambda>(lo, hi). lo \<le> r \<and> r \<le> hi) xs"

text \<open>What one single-character operator does to a name: the rest, or no match.\<close>

fun stepTok :: "tok \<Rightarrow> string \<Rightarrow> string option" where
  "stepTok TStar s = None"
| "stepTok (TLit c) s = (if s \<noteq> [] \<and> hd s = c then Some (tl s) else None)"
| "stepTok TAny s = (if s \<noteq> [] \<and> hd s \<noteq> CHR ''/'' then Some (runeTail s) else None)"
| "stepTok (TClass negated xs) s =
     (if s \<noteq> [] \<and> inRanges (fst (decodeRune s)) xs \<noteq> negated then Some (runeTail s) else None)"

fun stepToks :: "tok list \<Rightarrow> string \<Rightarrow> string option" where
  "stepToks [] s = Some s"
| "stepToks (t # ts) s = (case stepTok t s of None \<Rightarrow> None | Some s' \<Rightarrow> stepToks ts s')"

inductive gmatch :: "tok list \<Rightarrow> string \<Rightarrow> bool" where
  gmatch_Nil: "gmatch [] []"
| gmatch_step: "stepTok t s = Some s' \<Longrightarrow> gmatch ts s' \<Longrightarrow> gmatch (t # ts) s"
| gmatch_end: "gmatch ts s \<Longrightarrow> gmatch (TStar # ts) s"
| gmatch_skip: "c \<noteq> CHR ''/'' \<Longrightarrow> gmatch (TStar # ts) s \<Longrightarrow> gmatch (TStar # ts) (c # s)"

inductive_simps gmatch_Nil_iff [simp]: "gmatch [] s"
inductive_cases gmatch_StarE: "gmatch (TStar # ts) s"
inductive_cases gmatch_ConsE: "gmatch (t # ts) s"

section \<open>One chunk: the matcher against the grammar\<close>

lemma classLoop_close: "classLoop r True m (CHR '']'' # c) = Some (m, c)"
  by (subst classLoop.simps) simp

lemma parseRanges_close: "parseRanges True (CHR '']'' # c) = Some ([], c)"
  by (subst parseRanges.simps) simp

lemma classLoop_rec:
  "\<not> (c \<noteq> [] \<and> hd c = CHR '']'' \<and> n) \<Longrightarrow> classLoop r n m c =
     (case getRange c of None \<Rightarrow> None
      | Some ((lo, hi), d) \<Rightarrow> classLoop r True (m \<or> (lo \<le> r \<and> r \<le> hi)) d)"
  by (subst classLoop.simps) auto

lemma parseRanges_rec:
  "\<not> (c \<noteq> [] \<and> hd c = CHR '']'' \<and> n) \<Longrightarrow> parseRanges n c =
     (case getRange c of None \<Rightarrow> None
      | Some (x, d) \<Rightarrow> map_option (\<lambda>(xs, r). (x # xs, r)) (parseRanges True d))"
  by (subst parseRanges.simps) auto

lemma inRanges_simps [simp]:
  "inRanges r [] = False" "inRanges r ((lo, hi) # xs) = ((lo \<le> r \<and> r \<le> hi) \<or> inRanges r xs)"
  by (simp_all add: inRanges_def)

lemma parseRanges_induct [case_names close bad range]:
  assumes "\<And>c. P True (CHR '']'' # c)"
    and "\<And>n c. \<not> (c \<noteq> [] \<and> hd c = CHR '']'' \<and> n) \<Longrightarrow> getRange c = None \<Longrightarrow> P n c"
    and "\<And>n c x d. \<not> (c \<noteq> [] \<and> hd c = CHR '']'' \<and> n) \<Longrightarrow> getRange c = Some (x, d) \<Longrightarrow>
           P True d \<Longrightarrow> P n c"
  shows "P n c"
proof (induction n c rule: parseRanges.induct)
  case (1 n c)
  consider (close) t where "c = CHR '']'' # t" and "n"
    | (bad) "\<not> (c \<noteq> [] \<and> hd c = CHR '']'' \<and> n)" and "getRange c = None"
    | (range) x d where "\<not> (c \<noteq> [] \<and> hd c = CHR '']'' \<and> n)" and "getRange c = Some (x, d)"
    by (cases c; cases "getRange c") auto
  then show ?case
    by cases (use assms 1 in \<open>auto\<close>)
qed

lemma classLoop_parse:
  "classLoop r n m c = map_option (\<lambda>(xs, t). (m \<or> inRanges r xs, t)) (parseRanges n c)"
proof (induction n c arbitrary: m rule: parseRanges_induct)
  case (range n c x d)
  then show ?case
    by (cases x) (auto simp: classLoop_rec parseRanges_rec option.map_comp comp_def split_def disj_assoc)
qed (simp_all add: classLoop_close parseRanges_close classLoop_rec parseRanges_rec)

lemma parseGlob_simps [simp]:
  "parseGlob (CHR ''*'' # cs) = map_option ((#) TStar) (parseGlob cs)"
  "parseGlob (CHR ''?'' # cs) = map_option ((#) TAny) (parseGlob cs)"
  "parseGlob (CHR ''['' # cs) =
     (case parseRanges False (snd (classStart cs)) of None \<Rightarrow> None
      | Some (xs, t) \<Rightarrow> map_option ((#) (TClass (fst (classStart cs)) xs)) (parseGlob t))"
  "parseGlob [CHR 0x5C] = None"
  "parseGlob (CHR 0x5C # d # ds) = map_option ((#) (TLit d)) (parseGlob ds)"
  "c \<noteq> CHR ''*'' \<Longrightarrow> c \<noteq> CHR ''?'' \<Longrightarrow> c \<noteq> CHR ''['' \<Longrightarrow> c \<noteq> CHR 0x5C \<Longrightarrow>
     parseGlob (c # cs) = map_option ((#) (TLit c)) (parseGlob cs)"
  by (simp_all add: parseGlob.simps(2) Let_def split_def)

lemma matchChunk_simps:
  "matchChunk f (CHR ''?'' # cs) s =
     (let f = (f \<or> s = []) in matchChunk (f \<or> hd s = CHR ''/'') cs (if f then s else runeTail s))"
  "matchChunk f (CHR ''['' # cs) s =
     (let f = (f \<or> s = []) in
      case parseRanges False (snd (classStart cs)) of None \<Rightarrow> None
      | Some (xs, t) \<Rightarrow> matchChunk (f \<or> inRanges (if f then 0 else fst (decodeRune s)) xs = fst (classStart cs)) t
          (if f then s else runeTail s))"
  "matchChunk f [CHR 0x5C] s = None"
  "matchChunk f (CHR 0x5C # d # ds) s =
     (let f = (f \<or> s = []) in matchChunk (f \<or> d \<noteq> hd s) ds (if f then s else tl s))"
  "c \<noteq> CHR ''?'' \<Longrightarrow> c \<noteq> CHR ''['' \<Longrightarrow> c \<noteq> CHR 0x5C \<Longrightarrow> matchChunk f (c # cs) s =
     (let f = (f \<or> s = []) in matchChunk (f \<or> c \<noteq> hd s) cs (if f then s else tl s))"
  by (simp_all add: matchChunk.simps(2) Let_def split_def classLoop_parse split: option.split)

lemma parseGlob_induct [case_names Nil star any bad_cls cls bad_esc esc lit]:
  assumes "P []" and "\<And>cs. P cs \<Longrightarrow> P (CHR ''*'' # cs)" and "\<And>cs. P cs \<Longrightarrow> P (CHR ''?'' # cs)"
    and "\<And>cs. parseRanges False (snd (classStart cs)) = None \<Longrightarrow> P (CHR ''['' # cs)"
    and "\<And>cs xs t. parseRanges False (snd (classStart cs)) = Some (xs, t) \<Longrightarrow> P t \<Longrightarrow> P (CHR ''['' # cs)"
    and "P [CHR 0x5C]" and "\<And>d ds. P ds \<Longrightarrow> P (CHR 0x5C # d # ds)"
    and "\<And>c cs. c \<noteq> CHR ''*'' \<Longrightarrow> c \<noteq> CHR ''?'' \<Longrightarrow> c \<noteq> CHR ''['' \<Longrightarrow> c \<noteq> CHR 0x5C \<Longrightarrow> P cs \<Longrightarrow> P (c # cs)"
  shows "P p"
proof (induction p rule: parseGlob.induct)
  case (2 c cs)
  consider "c = CHR ''*''" | "c = CHR ''?''" | "c = CHR 0x5C" "cs = []"
    | d ds where "c = CHR 0x5C" "cs = d # ds"
    | "c = CHR ''[''" "parseRanges False (snd (classStart cs)) = None"
    | xs t where "c = CHR ''[''" "parseRanges False (snd (classStart cs)) = Some (xs, t)"
    | "c \<noteq> CHR ''*''" "c \<noteq> CHR ''?''" "c \<noteq> CHR ''[''" "c \<noteq> CHR 0x5C"
    by (cases cs; cases "parseRanges False (snd (classStart cs))") auto
  then show ?case
  proof cases
    case (6 xs t)
    with "2.IH" have "P t" by (cases "classStart cs") auto
    with 6 show ?thesis using assms(5) by simp
  qed (use assms "2.IH" in \<open>auto\<close>)
qed (rule assms(1))

lemma matchChunk_bad: "parseGlob c = None \<Longrightarrow> matchChunk f c s = None"
  by (induction c arbitrary: f s rule: parseGlob_induct) (auto simp: matchChunk_simps Let_def)

lemma matchChunk_ok:
  "parseGlob c = Some ts \<Longrightarrow> TStar \<notin> set ts \<Longrightarrow>
     matchChunk f c s = Some (if f then None else stepToks ts s)"
proof (induction c arbitrary: f s ts rule: parseGlob_induct)
  case (cls cs xs t)
  then show ?case by (auto simp: matchChunk_simps Let_def)
qed (auto simp: matchChunk_simps Let_def)

section \<open>Cutting a pattern into chunks\<close>

text \<open>Everything the class parser reads of a prefix it reads the same of the whole string.\<close>

lemma decodeRune_append:
  assumes "decodeRune s \<noteq> (runeError, 1)" and "s \<noteq> []"
  shows "decodeRune (s @ t) = decodeRune s"
proof -
  from assms(2) obtain c cs where s: "s = c # cs" by (cases s) auto
  obtain lo hi where r: "secondRange (byteVal c) = (lo, hi)" by (metis surj_pair)
  from assms(1) show ?thesis
    unfolding s decodeRune_def
    by (cases cs; cases "tl cs"; cases "tl (tl cs)") (simp_all add: Let_def r split: if_split_asm)
qed

lemma getRune_append: "getRune s = Some (r, v) \<Longrightarrow> s \<noteq> [] \<Longrightarrow> getRune (s @ w) = Some (r, v @ w)"
  using decodeRune_append [of s w] decodeRune_width_le [of s]
  by (auto simp: getRune_def runeTail_def Let_def split: prod.splits if_splits)

lemma getEsc_append: "getEsc u = Some (r, v) \<Longrightarrow> getEsc (u @ w) = Some (r, v @ w)"
  by (cases u) (auto simp: getEsc_def split: if_splits dest: getRune_append [where w = w])

lemma getRange_append: "getRange u = Some (x, v) \<Longrightarrow> getRange (u @ w) = Some (x, v @ w)"
proof -
  assume u: "getRange u = Some (x, v)"
  then obtain lo c where lo: "getEsc u = Some (lo, c)" by (auto simp: getRange_def split: option.splits)
  have "c \<noteq> []" using lo by (rule getEsc_nonempty)
  then have c: "hd (c @ w) = hd c" "tl (c @ w) = tl c @ w" by simp_all
  show ?thesis
  proof (cases "hd c = CHR ''-''")
    case True
    with u lo obtain hi where hi: "getEsc (tl c) = Some (hi, v)" and "x = (lo, hi)"
      by (auto simp: getRange_def split: option.splits)
    with True show ?thesis
      by (simp add: getRange_def getEsc_append [OF lo] getEsc_append [OF hi] c)
  next
    case False
    with u lo \<open>c \<noteq> []\<close> show ?thesis by (auto simp: getRange_def getEsc_append [OF lo])
  qed
qed

lemma parseRanges_append:
  "parseRanges n u = Some (xs, v) \<Longrightarrow> parseRanges n (u @ w) = Some (xs, v @ w)"
proof (induction n u arbitrary: xs rule: parseRanges_induct)
  case (range n c x d)
  then have "getRange (c @ w) = Some (x, d @ w)" by (blast intro: getRange_append)
  moreover have "c \<noteq> []" using range.hyps by (auto simp: getRange_def getEsc_def)
  ultimately show ?case using range by (auto simp: parseRanges_rec)
qed (auto simp: parseRanges_close parseRanges_rec)

text \<open>
  A valid rune is a first byte and continuation bytes, none of which is an ASCII byte, so cutting the
  pattern into chunks byte by byte never cuts a rune of a class in two.
\<close>

lemma decodeRune_split:
  assumes "decodeRune (c # cs) = (r, n)" and "(r, n) \<noteq> (runeError, 1)"
  obtains k t where "cs = k @ t" and "n = Suc (length k)" and "\<And>x. decodeRune (c # k @ x) = (r, n)"
    and "\<forall>b \<in> set k. 0x80 \<le> byteVal b"
proof -
  obtain lo hi where r: "secondRange (byteVal c) = (lo, hi)" by (metis surj_pair)
  have lo: "0x80 \<le> lo" using r by (auto simp: secondRange_def split: if_splits)
  let ?k = "take (n - 1) cs" and ?t = "drop (n - 1) cs"
  have n: "n = Suc (length ?k)" and *: "\<And>x. decodeRune (c # ?k @ x) = (r, n)"
    and "\<forall>b \<in> set ?k. 0x80 \<le> byteVal b"
    using assms lo unfolding decodeRune_def
    by (cases cs; cases "tl cs"; cases "tl (tl cs)";
        simp add: Let_def r inByteRange_def split: if_split_asm; auto)+
  then show thesis by (intro that [of ?k ?t]) auto
qed

lemma scanRun_plain:
  "\<forall>b \<in> set k. 0x80 \<le> byteVal b \<Longrightarrow> scanRun i (k @ x) = (k @ fst (scanRun i x), snd (scanRun i x))"
proof (induction k)
  case (Cons b k)
  then have "b \<noteq> CHR 0x5C" "b \<noteq> CHR ''*''" "b \<noteq> CHR ''[''" "b \<noteq> CHR '']''"
    by (auto simp: byteVal_def)
  with Cons show ?case by (simp add: split_def)
qed simp

definition scanPast :: "string \<Rightarrow> bool" where
  "scanPast u = (\<forall>x. scanRun True (u @ x) = (u @ fst (scanRun True x), snd (scanRun True x)))"

lemma scanPast_append: "scanPast u \<Longrightarrow> scanPast v \<Longrightarrow> scanPast (u @ v)"
  by (simp add: scanPast_def)

lemma scanPast_byte: "c \<noteq> CHR '']'' \<Longrightarrow> c \<noteq> CHR 0x5C \<Longrightarrow> scanPast [c]"
  by (simp add: scanPast_def split_def Let_def)

lemma scanPast_plain: "\<forall>b \<in> set k. 0x80 \<le> byteVal b \<Longrightarrow> scanPast k"
  by (simp add: scanPast_def scanRun_plain)

lemma scanPast_esc: "scanPast [CHR 0x5C, d]"
  by (simp add: scanPast_def split_def Let_def)

lemma getRune_split:
  assumes "getRune (c # cs) = Some (r, t)"
  obtains k where "cs = k @ t" and "\<And>x. x \<noteq> [] \<Longrightarrow> getRune (c # k @ x) = Some (r, x)" and "scanPast k"
proof -
  obtain n where n: "decodeRune (c # cs) = (r, n)" "(r, n) \<noteq> (runeError, 1)" "t = runeTail (c # cs)"
    using assms by (auto simp: getRune_def split: prod.splits if_splits)
  from decodeRune_split [OF n(1,2)] obtain k t' where k: "cs = k @ t'" "n = Suc (length k)"
    "\<And>x. decodeRune (c # k @ x) = (r, n)" "\<forall>b \<in> set k. 0x80 \<le> byteVal b" by blast
  have "runeTail (c # k @ x) = x" for x using k by (simp add: runeTail_def)
  with k n show thesis by (intro that [of k]) (auto simp: getRune_def scanPast_plain)
qed

lemma getEsc_split:
  assumes "getEsc c = Some (r, t)"
  obtains u where "c = u @ t" and "\<And>x. x \<noteq> [] \<Longrightarrow> getEsc (u @ x) = Some (r, x)" and "scanPast u"
proof -
  from assms obtain d cs where c: "c = d # cs" and d: "d \<noteq> CHR ''-''" "d \<noteq> CHR '']''"
    by (auto simp: getEsc_def split: list.splits if_splits)
  show thesis
  proof (cases "d = CHR 0x5C")
    case True
    with assms c obtain e ds where cs: "cs = e # ds" and "getRune (e # ds) = Some (r, t)"
      by (cases cs) (auto simp: getEsc_def)
    from getRune_split [OF this(2)] obtain k where k: "ds = k @ t"
      "\<And>x. x \<noteq> [] \<Longrightarrow> getRune (e # k @ x) = Some (r, x)" "scanPast k" by blast
    have "scanPast (d # e # k)" using scanPast_append [OF scanPast_esc [of e] k(3)] True by simp
    with k c cs True show thesis by (intro that [of "d # e # k"]) (auto simp: getEsc_def)
  next
    case False
    with assms c d have "getRune (d # cs) = Some (r, t)" by (simp add: getEsc_def)
    from getRune_split [OF this] obtain k where k: "cs = k @ t"
      "\<And>x. x \<noteq> [] \<Longrightarrow> getRune (d # k @ x) = Some (r, x)" "scanPast k" by blast
    have "scanPast (d # k)" using scanPast_append [OF scanPast_byte [of d] k(3)] False d by simp
    with k c d False show thesis by (intro that [of "d # k"]) (auto simp: getEsc_def)
  qed
qed

lemma getRange_split:
  assumes "getRange c = Some (y, t)"
  obtains u where "c = u @ t" and "\<And>x. x \<noteq> [] \<Longrightarrow> hd x = hd t \<Longrightarrow> getRange (u @ x) = Some (y, x)"
    and "scanPast u"
proof -
  from assms obtain lo d where lo: "getEsc c = Some (lo, d)" by (auto simp: getRange_def split: option.splits)
  from getEsc_split [OF lo] obtain u where u: "c = u @ d"
    "\<And>x. x \<noteq> [] \<Longrightarrow> getEsc (u @ x) = Some (lo, x)" "scanPast u" by blast
  show thesis
  proof (cases "hd d = CHR ''-''")
    case True
    with assms lo obtain hi where hi: "getEsc (tl d) = Some (hi, t)" and y: "y = (lo, hi)"
      by (auto simp: getRange_def split: option.splits)
    from getEsc_split [OF hi] obtain v where v: "tl d = v @ t"
      "\<And>x. x \<noteq> [] \<Longrightarrow> getEsc (v @ x) = Some (hi, x)" "scanPast v" by blast
    have d: "d = CHR ''-'' # v @ t" using getEsc_nonempty [OF lo] True v(1) by (cases d) auto
    have "scanPast (u @ CHR ''-'' # v)"
      using scanPast_append [OF u(3) scanPast_append [OF scanPast_byte [of "CHR ''-''"] v(3)]] by simp
    moreover have "getRange ((u @ CHR ''-'' # v) @ x) = Some (y, x)" if "x \<noteq> []" for x
      using u(2) [of "CHR ''-'' # v @ x"] v(2) [OF that] y by (simp add: getRange_def)
    ultimately show thesis using u(1) d by (intro that [of "u @ CHR ''-'' # v"]) auto
  next
    case False
    with assms lo have "y = (lo, lo)" "d = t" by (auto simp: getRange_def)
    with u False show thesis by (intro that [of u]) (auto simp: getRange_def)
  qed
qed

lemma parseRanges_split:
  assumes "parseRanges n c = Some (xs, t)"
  obtains u where "c = u @ CHR '']'' # t" and "\<And>x. parseRanges n (u @ CHR '']'' # x) = Some (xs, x)"
    and "scanPast u"
proof -
  have "\<exists>u. c = u @ CHR '']'' # t \<and> (\<forall>x. parseRanges n (u @ CHR '']'' # x) = Some (xs, x)) \<and> scanPast u"
    using assms
  proof (induction n c arbitrary: xs rule: parseRanges_induct)
    case (close c)
    then show ?case
      by (intro exI [of _ "[]"]) (auto simp: parseRanges_close scanPast_def)
  next
    case (range n c y d)
    then obtain ys where ys: "parseRanges True d = Some (ys, t)" "xs = y # ys"
      by (auto simp: parseRanges_rec)
    from range.IH [OF ys(1)] obtain v where v: "d = v @ CHR '']'' # t"
      "\<And>x. parseRanges True (v @ CHR '']'' # x) = Some (ys, x)" "scanPast v" by blast
    from getRange_split [OF range.hyps(2)] obtain u where u: "c = u @ d"
      "\<And>x. x \<noteq> [] \<Longrightarrow> hd x = hd d \<Longrightarrow> getRange (u @ x) = Some (y, x)" "scanPast u" by blast
    have "hd (v @ CHR '']'' # x) = hd d" for x by (cases v) (simp_all add: v(1))
    then have g: "getRange (u @ v @ CHR '']'' # x) = Some (y, v @ CHR '']'' # x)" for x
      by (intro u(2)) simp_all
    have "u \<noteq> []" using getRange_shorter [OF range.hyps(2)] u(1) by auto
    then have "hd (u @ v @ CHR '']'' # x) = hd c" for x using u(1) by simp
    then have "parseRanges n (u @ v @ CHR '']'' # x) = Some (xs, x)" for x
      using range.hyps(1) \<open>u \<noteq> []\<close> u(1) g v(2) ys(2) by (subst parseRanges_rec) auto
    with u v show ?case by (intro exI [of _ "u @ v"]) (auto intro: scanPast_append)
  qed (auto simp: parseRanges_rec)
  with that show thesis by blast
qed

lemma parseGlob_append:
  "parseGlob a = Some ts \<Longrightarrow> parseGlob (a @ b) = map_option ((@) ts) (parseGlob b)"
proof (induction a arbitrary: ts rule: parseGlob_induct)
  case (cls cs xs t)
  then obtain us where us: "parseGlob t = Some us" and ts: "ts = TClass (fst (classStart cs)) xs # us" by auto
  have "cs \<noteq> []" using cls.hyps by (auto simp: classStart_def parseRanges_rec getRange_def getEsc_def)
  then have "classStart (cs @ b) = (fst (classStart cs), snd (classStart cs) @ b)"
    by (auto simp: classStart_def)
  with cls.IH [OF us] parseRanges_append [OF cls.hyps] ts show ?case
    by (cases "parseGlob b") auto
qed (cases "parseGlob b"; auto)+

text \<open>A run is star-free, and is in the grammar when the whole pattern is.\<close>

lemma scanRun_star_free:
  "scanRun False p = (a, b) \<Longrightarrow> parseGlob p = Some ts \<Longrightarrow>
     (\<exists>us. parseGlob a = Some us \<and> TStar \<notin> set us) \<and> (b = [] \<or> hd b = CHR ''*'')"
proof (induction p arbitrary: a b ts rule: parseGlob_induct)
  case (cls cs xs t)
  obtain u where u: "snd (classStart cs) = u @ CHR '']'' # t"
    "\<And>x. parseRanges False (u @ CHR '']'' # x) = Some (xs, x)" "scanPast u"
    using parseRanges_split [OF cls.hyps] by blast
  obtain a' where a': "scanRun False t = (a', b)" and
    a: "a = (if fst (classStart cs) then CHR ''['' # CHR ''^'' # u @ CHR '']'' # a' else CHR ''['' # u @ CHR '']'' # a')"
  proof -
    have "scanRun True (snd (classStart cs)) = (u @ CHR '']'' # fst (scanRun False t), snd (scanRun False t))"
      using u(1,3) by (simp add: scanPast_def split_def Let_def)
    then show thesis using cls.prems(1)
      by (intro that [of "fst (scanRun False t)"])
        (auto simp: classStart_def split_def Let_def split: if_splits prod.splits elim!: hd_Cons_tl [THEN subst])
  qed
  obtain us where us: "parseGlob t = Some us" using cls by auto
  from cls.IH [OF a' us] obtain vs where vs: "parseGlob a' = Some vs" "TStar \<notin> set vs"
    and b: "b = [] \<or> hd b = CHR ''*''" by blast
  have "u \<noteq> []"
    using u(2) [of t] by (auto simp: parseRanges_rec getRange_def getEsc_def)
  moreover have "\<not> fst (classStart cs) \<Longrightarrow> hd u \<noteq> CHR ''^''"
    using u(1) \<open>u \<noteq> []\<close> by (auto simp: classStart_def split: if_splits)
  ultimately have "parseGlob a = Some (TClass (fst (classStart cs)) xs # vs)"
    using a vs(1) u(2) by (auto simp: classStart_def)
  with vs(2) b show ?case by auto
qed (fastforce split: if_splits list.splits prod.splits)+

lemma parseGlob_stars:
  "parseGlob (replicate k (CHR ''*'') @ p) = map_option ((@) (replicate k TStar)) (parseGlob p)"
  by (induction k) (auto simp: option.map_comp comp_def option.map_ident)

lemma scanRun_rest: "scanRun i p = (a, b) \<Longrightarrow> b = [] \<or> hd b = CHR ''*''"
  by (induction i p arbitrary: a b rule: scanRun.induct)
    (auto split: if_splits list.splits prod.splits)

lemma scanRun_idem: "scanRun i p = (a, b) \<Longrightarrow> scanRun i a = (a, [])"
  by (induction i p arbitrary: a b rule: scanRun.induct)
    (auto split: if_splits list.splits prod.splits)

lemma takeWhile_replicate: "takeWhile (\<lambda>c. c = x) p = replicate (length (takeWhile (\<lambda>c. c = x) p)) x"
  by (induction p) auto

text \<open>
  A chunk of a pattern: \<open>k\<close> stars, a star-free run with its operators \<open>us\<close>, and the rest, which is
  empty or starts with a star.
\<close>

lemma scanChunk_parse:
  assumes "scanChunk p = (star, chunk, rest)"
  obtains k where "star = (0 < k)"
    and "chunk = [] \<Longrightarrow> rest = []"
    and "parseGlob p = (case parseGlob chunk of None \<Rightarrow> None
           | Some us \<Rightarrow> map_option (\<lambda>vs. replicate k TStar @ us @ vs) (parseGlob rest))"
    and "\<And>us. parseGlob chunk = Some us \<Longrightarrow> TStar \<notin> set us"
    and "rest = [] \<or> hd rest = CHR ''*''"
proof -
  let ?p = "dropWhile (\<lambda>c. c = CHR ''*'') p" and ?k = "length (takeWhile (\<lambda>c. c = CHR ''*'') p)"
  have p: "p = replicate ?k (CHR ''*'') @ ?p"
    by (metis takeWhile_dropWhile_id takeWhile_replicate)
  from assms have run: "scanRun False ?p = (chunk, rest)" and star: "star = (?p \<noteq> p)"
    by (auto simp: scanChunk_def Let_def split: prod.splits)
  have "star = (0 < ?k)"
    unfolding star by (metis append_Nil append_self_conv2 length_greater_0_conv p takeWhile_dropWhile_id)
  moreover have "rest = []" if "chunk = []"
  proof (rule ccontr)
    assume "rest \<noteq> []"
    with that scanRun_append [OF run] have "?p \<noteq> []" "hd ?p \<noteq> CHR ''*''"
      using hd_dropWhile [of "\<lambda>c. c = CHR ''*''" p] by auto
    with run that scanRun_progress show False by blast
  qed
  moreover have "parseGlob ?p = (case parseGlob chunk of None \<Rightarrow> None
           | Some us \<Rightarrow> map_option ((@) us) (parseGlob rest))"
    using scanRun_append [OF run] parseGlob_append [of chunk _ rest] scanRun_star_free [OF run]
    by (cases "parseGlob ?p") (auto split: option.splits)
  then have "parseGlob p = (case parseGlob chunk of None \<Rightarrow> None
           | Some us \<Rightarrow> map_option (\<lambda>vs. replicate ?k TStar @ us @ vs) (parseGlob rest))"
    by (subst p, subst parseGlob_stars) (auto simp: option.map_comp comp_def split: option.splits)
  moreover have "\<And>us. parseGlob chunk = Some us \<Longrightarrow> TStar \<notin> set us"
    using scanRun_star_free [OF scanRun_idem [OF run]] by force
  ultimately show thesis using scanRun_rest [OF run] by (intro that [of ?k]) auto
qed

section \<open>Errors are a matter of the pattern alone\<close>

lemma restValid_iff: "restValid p \<longleftrightarrow> parseGlob p \<noteq> None"
proof (induction p rule: restValid.induct)
  case (1 p)
  show ?case
  proof (cases "p = []")
    case False
    obtain st c r where c: "scanChunk p = (st, c, r)" by (metis surj_pair)
    from scanChunk_parse [OF c] obtain k where
      k: "parseGlob p = (case parseGlob c of None \<Rightarrow> None
           | Some us \<Rightarrow> map_option (\<lambda>vs. replicate k TStar @ us @ vs) (parseGlob r))"
      and ns: "\<And>us. parseGlob c = Some us \<Longrightarrow> TStar \<notin> set us" by metis
    have "(matchChunk False c [] \<noteq> None) = (parseGlob c \<noteq> None)"
      using ns matchChunk_ok [of c _ False "[]"] matchChunk_bad [of c False "[]"]
      by (cases "parseGlob c") auto
    moreover have "restValid p = (matchChunk False c [] \<noteq> None \<and> restValid r)"
      using False c by (subst restValid.simps) simp
    ultimately show ?thesis
      using "1.IH" [OF False c [symmetric] refl] k by (auto split: option.splits)
  qed (simp add: restValid.simps)
qed

text \<open>The search after a star, over the operators of the chunk.\<close>

fun starSearch :: "tok list \<Rightarrow> bool \<Rightarrow> string \<Rightarrow> string option" where
  "starSearch us final [] = None"
| "starSearch us final (c # cs) =
     (if c = CHR ''/'' then None
      else case stepToks us cs of
        Some t \<Rightarrow> if final \<and> t \<noteq> [] then starSearch us final cs else Some t
      | None \<Rightarrow> starSearch us final cs)"

lemma starLoop_search:
  "parseGlob c = Some us \<Longrightarrow> TStar \<notin> set us \<Longrightarrow> starLoop c f s = Some (starSearch us f s)"
  by (induction s) (auto simp: matchChunk_ok split: option.splits)

text \<open>One round of the matcher on a pattern in the grammar.\<close>

definition firstHere :: "tok list \<Rightarrow> bool \<Rightarrow> bool \<Rightarrow> string \<Rightarrow> string option" where
  "firstHere us star final n =
     (case (case stepToks us n of None \<Rightarrow> None | Some t \<Rightarrow> if t = [] \<or> \<not> final then Some t else None) of
        Some t \<Rightarrow> Some t
      | None \<Rightarrow> if star then starSearch us final n else None)"

lemma pathMatch_round:
  assumes "p \<noteq> []" and "scanChunk p = (star, c, r)" and "\<not> (star \<and> c = [])"
    and "parseGlob c = Some us" and "TStar \<notin> set us"
  shows "pathMatch p n = (case firstHere us star (r = []) n of
           Some t \<Rightarrow> pathMatch r t
         | None \<Rightarrow> if parseGlob r \<noteq> None then Inr False else Inl errBadPattern)"
  using assms(1-3)
  by (subst pathMatch.simps)
    (auto simp: firstHere_def matchChunk_ok [OF assms(4,5)] starLoop_search [OF assms(4,5)]
      restValid_iff split: option.splits)

lemma pathMatch_bad_chunk:
  assumes "p \<noteq> []" and "scanChunk p = (star, c, r)" and "parseGlob c = None"
  shows "pathMatch p n = Inl errBadPattern"
  using assms by (subst pathMatch.simps) (auto simp: matchChunk_bad)

lemma pathMatch_error:
  "pathMatch p n = Inl e \<longleftrightarrow> parseGlob p = None \<and> e = errBadPattern"
proof (induction p arbitrary: n rule: measure_induct_rule [of length])
  case (less p)
  show ?case
  proof (cases "p = []")
    case True
    then show ?thesis by (simp add: pathMatch.simps)
  next
    case False
    obtain st c r where c: "scanChunk p = (st, c, r)" by (metis surj_pair)
    from scanChunk_parse [OF c] obtain k where cr: "c = [] \<Longrightarrow> r = []"
      and k: "parseGlob p = (case parseGlob c of None \<Rightarrow> None
           | Some us \<Rightarrow> map_option (\<lambda>vs. replicate k TStar @ us @ vs) (parseGlob r))"
      and ns: "\<And>us. parseGlob c = Some us \<Longrightarrow> TStar \<notin> set us" by metis
    show ?thesis
    proof (cases "parseGlob c")
      case None
      with k show ?thesis by (auto simp: pathMatch_bad_chunk [OF False c])
    next
      case (Some us)
      have IH: "pathMatch r t = Inl e \<longleftrightarrow> parseGlob r = None \<and> e = errBadPattern" for t
        using scanChunk_shorter [OF c False] by (rule less.IH)
      show ?thesis
      proof (cases "st \<and> c = []")
        case True
        with cr k Some False c show ?thesis by (subst pathMatch.simps) auto
      next
        case nc: False
        show ?thesis
          unfolding pathMatch_round [OF False c nc Some ns [OF Some]]
          using IH k Some by (auto split: option.splits)
      qed
    qed
  qed
qed

section \<open>The matcher decides the meaning\<close>

lemma gmatch_stepToks: "stepToks us s = Some t \<Longrightarrow> gmatch vs t \<Longrightarrow> gmatch (us @ vs) s"
  by (induction us s rule: stepToks.induct) (auto split: option.splits intro: gmatch_step)

lemma gmatch_stars: "gmatch ts s \<Longrightarrow> gmatch (replicate k TStar @ ts) s"
  by (induction k) (auto intro: gmatch_end)

lemma gmatch_star_skip:
  "CHR ''/'' \<notin> set u \<Longrightarrow> gmatch (TStar # ts) s \<Longrightarrow> gmatch (TStar # ts) (u @ s)"
  by (induction u) (auto intro: gmatch_skip)

lemma gmatch_stars_skip:
  assumes "0 < k" and "CHR ''/'' \<notin> set u" and "gmatch ts s"
  shows "gmatch (replicate k TStar @ ts) (u @ s)"
proof -
  from assms(1) obtain j where k: "k = Suc j" by (cases k) auto
  have "gmatch (TStar # replicate j TStar @ ts) (u @ s)"
    using assms(2,3) by (intro gmatch_star_skip gmatch_end gmatch_stars)
  then show ?thesis by (simp add: k)
qed

lemma gmatch_append_runE:
  "gmatch (us @ vs) s \<Longrightarrow> TStar \<notin> set us \<Longrightarrow> \<exists>t. stepToks us s = Some t \<and> gmatch vs t"
  by (induction us arbitrary: s) (auto elim: gmatch_ConsE)

lemma gmatch_stars_splitE:
  assumes "gmatch (replicate k TStar @ ts) s"
  obtains u v where "s = u @ v" and "gmatch ts v" and "CHR ''/'' \<notin> set u" and "k = 0 \<longrightarrow> u = []"
proof -
  have star: "\<exists>u v. s = u @ v \<and> gmatch ts v \<and> CHR ''/'' \<notin> set u" if "gmatch (TStar # ts) s" for ts s
    using that
  proof (induction "TStar # ts" s rule: gmatch.induct)
    case (gmatch_end s)
    then show ?case by (metis append_Nil empty_iff list.set(1))
  next
    case (gmatch_skip c s)
    then obtain u v where "s = u @ v" "gmatch ts v" "CHR ''/'' \<notin> set u" by blast
    with gmatch_skip show ?case by (intro exI [of _ "c # u"] exI [of _ v]) auto
  qed auto
  have "\<exists>u v. s = u @ v \<and> gmatch ts v \<and> CHR ''/'' \<notin> set u \<and> (k = 0 \<longrightarrow> u = [])"
    using assms
  proof (induction k arbitrary: s)
    case (Suc k)
    then have "gmatch (TStar # (replicate k TStar @ ts)) s" by simp
    from star [OF this] obtain u v where "s = u @ v" "gmatch (replicate k TStar @ ts) v" "CHR ''/'' \<notin> set u"
      by blast
    moreover from Suc.IH [OF this(2)] obtain u' v' where "v = u' @ v'" "gmatch ts v'" "CHR ''/'' \<notin> set u'"
      by blast
    ultimately show ?case by (intro exI [of _ "u @ u'"] exI [of _ v']) auto
  qed auto
  with that show thesis by blast
qed

lemma starSearch_sound:
  "starSearch us f s = Some t \<Longrightarrow>
     \<exists>u v. s = u @ v \<and> u \<noteq> [] \<and> CHR ''/'' \<notin> set u \<and> stepToks us v = Some t \<and> (f \<longrightarrow> t = [])"
proof (induction s)
  case (Cons c s)
  show ?case
  proof (cases "stepToks us s = Some t \<and> (f \<longrightarrow> t = [])")
    case True
    with Cons.prems show ?thesis
      by (intro exI [of _ "[c]"] exI [of _ s]) (auto split: if_splits)
  next
    case False
    with Cons.prems have "starSearch us f s = Some t" and c: "c \<noteq> CHR ''/''"
      by (auto split: if_splits option.splits)
    from Cons.IH [OF this(1)] obtain u v where "s = u @ v" "u \<noteq> []" "CHR ''/'' \<notin> set u"
      "stepToks us v = Some t" "f \<longrightarrow> t = []" by blast
    with c show ?thesis by (intro exI [of _ "c # u"] exI [of _ v]) auto
  qed
qed simp

lemma firstHere_sound:
  "firstHere us star f s = Some t \<Longrightarrow>
     \<exists>u v. s = u @ v \<and> (\<not> star \<longrightarrow> u = []) \<and> CHR ''/'' \<notin> set u \<and> stepToks us v = Some t \<and> (f \<longrightarrow> t = [])"
  unfolding firstHere_def
  by (auto split: option.splits if_splits intro: exI [of _ "[]"]) (blast dest: starSearch_sound)+

text \<open>Soundness, for every name: what the matcher accepts, the pattern means.\<close>

lemma pathMatch_sound: "pathMatch p n = Inr True \<Longrightarrow> \<exists>ts. parseGlob p = Some ts \<and> gmatch ts n"
proof (induction p arbitrary: n rule: measure_induct_rule [of length])
  case (less p)
  show ?case
  proof (cases "p = []")
    case True
    with less.prems show ?thesis by (simp add: pathMatch.simps)
  next
    case False
    obtain st c r where c: "scanChunk p = (st, c, r)" by (metis surj_pair)
    from scanChunk_parse [OF c] obtain k where st: "st = (0 < k)" and cr: "c = [] \<Longrightarrow> r = []"
      and k: "parseGlob p = (case parseGlob c of None \<Rightarrow> None
           | Some us \<Rightarrow> map_option (\<lambda>vs. replicate k TStar @ us @ vs) (parseGlob r))"
      and ns: "\<And>us. parseGlob c = Some us \<Longrightarrow> TStar \<notin> set us" by metis
    obtain us where us: "parseGlob c = Some us"
      using less.prems pathMatch_bad_chunk [OF False c, of n] by (cases "parseGlob c") auto
    show ?thesis
    proof (cases "st \<and> c = []")
      case True
      with less.prems False c have "CHR ''/'' \<notin> set n" by (subst (asm) pathMatch.simps) auto
      then have "gmatch (replicate k TStar @ []) (n @ [])"
        using True st by (intro gmatch_stars_skip) (auto intro: gmatch_Nil)
      with True cr k us show ?thesis by auto
    next
      case nc: False
      from less.prems obtain t where t: "firstHere us st (r = []) n = Some t" and "pathMatch r t = Inr True"
        unfolding pathMatch_round [OF False c nc us ns [OF us]] by (auto split: option.splits if_splits)
      from less.IH [OF scanChunk_shorter [OF c False] this(2)] obtain vs where
        vs: "parseGlob r = Some vs" "gmatch vs t" by blast
      from firstHere_sound [OF t] obtain u v where u: "n = u @ v" "\<not> st \<longrightarrow> u = []"
        "CHR ''/'' \<notin> set u" "stepToks us v = Some t" by blast
      have "gmatch (us @ vs) v" using u(4) vs(2) by (rule gmatch_stepToks)
      then have "gmatch (replicate k TStar @ us @ vs) n"
        using u(1-3) st gmatch_stars_skip [of k u "us @ vs" v] by (cases "0 < k") auto
      with k us vs show ?thesis by auto
    qed
  qed
qed

text \<open>
  Completeness holds for plain names: on a name with a slash the leftmost match of a chunk may end
  before the slash where a later one would have taken it (\<open>*[^a]*b\<close> and \<open>x/b\<close>).
\<close>

definition plainName :: "string \<Rightarrow> bool" where
  "plainName n = (\<forall>c \<in> set n. asciiByte c \<and> c \<noteq> CHR ''/'')"

lemma plainName_append [simp]: "plainName (u @ v) \<longleftrightarrow> plainName u \<and> plainName v"
  by (auto simp: plainName_def)

lemma plainName_no_slash: "plainName n \<Longrightarrow> CHR ''/'' \<notin> set n"
  by (auto simp: plainName_def)

lemma stepTok_plain: "plainName s \<Longrightarrow> stepTok t s = Some s' \<Longrightarrow> \<exists>c. s = c # s'"
  by (cases s; cases t) (auto simp: plainName_def runeTail_ascii split: if_splits)

lemma stepToks_plain: "plainName s \<Longrightarrow> stepToks us s = Some t \<Longrightarrow> \<exists>w. s = w @ t \<and> length w = length us"
proof (induction us arbitrary: s)
  case (Cons u us)
  then obtain s' where s': "stepTok u s = Some s'" "stepToks us s' = Some t" by (auto split: option.splits)
  from stepTok_plain [OF Cons.prems(1) s'(1)] obtain c where c: "s = c # s'" by blast
  with Cons.prems(1) have "plainName s'" by (auto simp: plainName_def)
  from Cons.IH [OF this s'(2)] c show ?case by (metis append_Cons length_Cons)
qed simp

lemma starSearch_complete:
  assumes "CHR ''/'' \<notin> set u" and "u \<noteq> []" and "stepToks us v = Some t" and "f \<longrightarrow> t = []"
  shows "\<exists>x y t'. starSearch us f (u @ v) = Some t' \<and> u = x @ y \<and> stepToks us (y @ v) = Some t'
           \<and> (f \<longrightarrow> t' = [])"
  using assms(1,2)
proof (induction u)
  case (Cons c u)
  show ?case
  proof (cases "\<exists>t'. stepToks us (u @ v) = Some t' \<and> (f \<longrightarrow> t' = [])")
    case True
    then obtain t' where "stepToks us (u @ v) = Some t'" "f \<longrightarrow> t' = []" by blast
    with Cons.prems show ?thesis by (intro exI [of _ "[c]"] exI [of _ u] exI [of _ t']) auto
  next
    case False
    then have "starSearch us f ((c # u) @ v) = starSearch us f (u @ v)"
      using Cons.prems by (auto split: option.splits)
    moreover have "u \<noteq> []" using False assms(3,4) by auto
    ultimately show ?thesis using Cons.IH Cons.prems by (metis append_Cons list.set_intros(2))
  qed
qed simp

lemma firstHere_complete:
  assumes "CHR ''/'' \<notin> set u" and "\<not> star \<longrightarrow> u = []" and "stepToks us v = Some t" and "f \<longrightarrow> t = []"
  shows "\<exists>x y t'. firstHere us star f (u @ v) = Some t' \<and> u = x @ y \<and> stepToks us (y @ v) = Some t'
           \<and> (f \<longrightarrow> t' = [])"
proof (cases "\<exists>t'. stepToks us (u @ v) = Some t' \<and> (f \<longrightarrow> t' = [])")
  case True
  then obtain t' where "stepToks us (u @ v) = Some t'" "f \<longrightarrow> t' = []" by blast
  then show ?thesis by (intro exI [of _ "[]"] exI [of _ u] exI [of _ t']) (auto simp: firstHere_def)
next
  case False
  then have u: "u \<noteq> []" and "star" using assms by auto
  with False have "firstHere us star f (u @ v) = starSearch us f (u @ v)"
    by (auto simp: firstHere_def split: option.splits)
  with starSearch_complete [OF assms(1) u assms(3,4)] show ?thesis by simp
qed

lemma pathMatch_complete:
  "plainName n \<Longrightarrow> parseGlob p = Some ts \<Longrightarrow> gmatch ts n \<Longrightarrow> pathMatch p n = Inr True"
proof (induction p arbitrary: n ts rule: measure_induct_rule [of length])
  case (less p)
  show ?case
  proof (cases "p = []")
    case True
    with less.prems show ?thesis by (auto simp: pathMatch.simps)
  next
    case False
    obtain st c r where c: "scanChunk p = (st, c, r)" by (metis surj_pair)
    from scanChunk_parse [OF c] obtain k where st: "st = (0 < k)" and rr: "r = [] \<or> hd r = CHR ''*''"
      and k: "parseGlob p = (case parseGlob c of None \<Rightarrow> None
           | Some us \<Rightarrow> map_option (\<lambda>vs. replicate k TStar @ us @ vs) (parseGlob r))"
      and ns: "\<And>us. parseGlob c = Some us \<Longrightarrow> TStar \<notin> set us" by metis
    from less.prems(2) k obtain us vs where us: "parseGlob c = Some us" and vs: "parseGlob r = Some vs"
      and ts: "ts = replicate k TStar @ us @ vs" by (auto split: option.splits)
    show ?thesis
    proof (cases "st \<and> c = []")
      case True
      with plainName_no_slash [OF less.prems(1)] False c show ?thesis by (subst pathMatch.simps) auto
    next
      case nc: False
      from less.prems(3) [unfolded ts] obtain u v where n: "n = u @ v" and "gmatch (us @ vs) v"
        and u: "CHR ''/'' \<notin> set u" "k = 0 \<longrightarrow> u = []" by (rule gmatch_stars_splitE)
      from gmatch_append_runE [OF this(2) ns [OF us]] obtain t where
        t: "stepToks us v = Some t" "gmatch vs t" by blast
      have f: "r = [] \<longrightarrow> t = []" using vs t(2) by auto
      have "\<not> st \<longrightarrow> u = []" using st u(2) by simp
      from firstHere_complete [OF u(1) this t(1) f] obtain x y t' where
        t': "firstHere us st (r = []) n = Some t'" "u = x @ y" "stepToks us (y @ v) = Some t'"
          "r = [] \<longrightarrow> t' = []" unfolding n by blast
      have pl: "plainName (y @ v)" "plainName v" using less.prems(1) n t'(2) by auto
      obtain w w' where w: "y @ v = w @ t'" "length w = length us" "v = w' @ t" "length w' = length us"
        using stepToks_plain [OF pl(1) t'(3)] stepToks_plain [OF pl(2) t(1)] by blast
      then have "(y @ w') @ t = w @ t'" and "length w \<le> length (y @ w')" by auto
      then obtain z where z: "t' = z @ t" by (metis append_eq_append_conv_if append_take_drop_id append_assoc same_append_eq)
      have plt: "plainName t'" using pl(1) w(1) by auto
      have "gmatch vs t'"
      proof (cases "r = []")
        case True
        with f t t'(4) show ?thesis by simp
      next
        case False
        with rr obtain r' where "r = CHR ''*'' # r'" by (cases r) auto
        with vs obtain vs' where "vs = TStar # vs'" by auto
        with z t(2) plainName_no_slash [of z] plt show ?thesis by (auto intro: gmatch_star_skip)
      qed
      from less.IH [OF scanChunk_shorter [OF c False] plt vs this]
      show ?thesis unfolding pathMatch_round [OF False c nc us ns [OF us]] by (simp add: t'(1))
    qed
  qed
qed

lemma pathMatch_decides:
  assumes "plainName n"
  shows "pathMatch p n = (case parseGlob p of None \<Rightarrow> Inl errBadPattern | Some ts \<Rightarrow> Inr (gmatch ts n))"
proof (cases "parseGlob p")
  case None
  then show ?thesis by (simp add: pathMatch_error)
next
  case (Some ts)
  then obtain b where b: "pathMatch p n = Inr b" using pathMatch_error [of p n] by (cases "pathMatch p n") auto
  with Some assms pathMatch_sound [of p n] pathMatch_complete [of n p ts] show ?thesis by (cases b) auto
qed

end
