(* ===== verification/Api.thy ===== *)
theory Api
  imports GoLib
begin

text \<open>
  The data of the program: the NamespaceSync resource of \<^verbatim>\<open>api/v1/namespacesync_types.go\<close>, and of the
  Kubernetes objects it handles (Secret, ConfigMap) the fields the controller reads or writes. A nil
  pointer is \<open>None\<close>; a Go slice is a list, a nil slice the empty list, which the code never tells
  apart.
\<close>

section \<open>Metadata\<close>

text \<open>
  \<open>metav1.ObjectMeta\<close>. The fields left out (creation time, owner references, managed fields and so
  on) are never read or written by the controller.
\<close>

record objectMeta =
  metaName :: string
  metaNamespace :: string
  metaUID :: string
  resourceVersion :: string
  generation :: int
  deletionTimestamp :: "goTime option"
  labels :: gomap
  annotations :: gomap
  finalizers :: "string list"

definition emptyMeta :: objectMeta where
  "emptyMeta = \<lparr>metaName = [], metaNamespace = [], metaUID = [], resourceVersion = [], generation = 0,
     deletionTimestamp = None, labels = None, annotations = None, finalizers = []\<rparr>"

text \<open>\<open>types.NamespacedName\<close>: namespace and name.\<close>

type_synonym key = "string \<times> string"

section \<open>The NamespaceSync resource\<close>

record resourceFilter =
  Include :: "string list"
  filterExclude :: "string list"

record resourceFilters =
  filterSecrets :: "resourceFilter option"
  filterConfigMaps :: "resourceFilter option"

record namespaceSyncSpec =
  SourceNamespace :: string
  TargetNamespaces :: "string list"
  ConfigMapName :: "string list"
  SecretName :: "string list"
  Exclude :: "string list"
  ResourceFilters :: "resourceFilters option"

text \<open>\<open>metav1.Condition\<close>; \<open>metav1.ConditionTrue\<close> and \<open>metav1.ConditionFalse\<close> are strings.\<close>

record condition =
  condType :: string
  condStatus :: string
  condObservedGeneration :: int
  condLastTransitionTime :: goTime
  condReason :: string
  condMessage :: string

definition conditionTrue :: string where
  "conditionTrue = ''True''"

definition conditionFalse :: string where
  "conditionFalse = ''False''"

record namespaceSyncStatus =
  LastSyncTime :: goTime
  SyncedNamespaces :: "string list"
  FailedNamespaces :: gomap
  Conditions :: "condition list"
  ObservedGeneration :: int

record namespaceSync =
  nsMeta :: objectMeta
  Spec :: namespaceSyncSpec
  Status :: namespaceSyncStatus

definition syncKey :: "namespaceSync \<Rightarrow> key" where
  "syncKey n = (metaNamespace (nsMeta n), metaName (nsMeta n))"

section \<open>Secrets and ConfigMaps\<close>

record secret =
  secMeta :: objectMeta
  secImmutable :: "bool option"
  secData :: gomap
  secStringData :: gomap
  secType :: string

record configMap =
  cmMeta :: objectMeta
  cmImmutable :: "bool option"
  cmData :: gomap
  cmBinaryData :: gomap

text \<open>\<open>client.Object\<close>: the objects the generic code is used at, and the interface's methods.\<close>

datatype kind = KSecret | KConfigMap

datatype obj = ObjSecret secret | ObjConfigMap configMap

fun objKind :: "obj \<Rightarrow> kind" where
  "objKind (ObjSecret s) = KSecret"
| "objKind (ObjConfigMap c) = KConfigMap"

fun objMeta :: "obj \<Rightarrow> objectMeta" where
  "objMeta (ObjSecret s) = secMeta s"
| "objMeta (ObjConfigMap c) = cmMeta c"

fun setMeta :: "objectMeta \<Rightarrow> obj \<Rightarrow> obj" where
  "setMeta m (ObjSecret s) = ObjSecret (s\<lparr>secMeta := m\<rparr>)"
| "setMeta m (ObjConfigMap c) = ObjConfigMap (c\<lparr>cmMeta := m\<rparr>)"

definition getNamespace :: "obj \<Rightarrow> string" where
  "getNamespace o' = metaNamespace (objMeta o')"

definition getName :: "obj \<Rightarrow> string" where
  "getName o' = metaName (objMeta o')"

definition getAnnotations :: "obj \<Rightarrow> gomap" where
  "getAnnotations o' = annotations (objMeta o')"

definition getLabels :: "obj \<Rightarrow> gomap" where
  "getLabels o' = labels (objMeta o')"

definition setAnnotations :: "gomap \<Rightarrow> obj \<Rightarrow> obj" where
  "setAnnotations a o' = setMeta ((objMeta o')\<lparr>annotations := a\<rparr>) o'"

definition setLabels :: "gomap \<Rightarrow> obj \<Rightarrow> obj" where
  "setLabels l o' = setMeta ((objMeta o')\<lparr>labels := l\<rparr>) o'"

definition objKey :: "obj \<Rightarrow> key" where
  "objKey o' = (getNamespace o', getName o')"

lemma objMeta_setMeta [simp]: "objMeta (setMeta m o') = m"
  by (cases o') simp_all

lemma objKind_setMeta [simp]: "objKind (setMeta m o') = objKind o'"
  by (cases o') simp_all

lemma setMeta_setMeta [simp]: "setMeta m (setMeta m' o') = setMeta m o'"
  by (cases o') simp_all

lemma setMeta_objMeta [simp]: "setMeta (objMeta o') o' = o'"
  by (cases o') simp_all

lemma set_annotations_meta [meta_simps]:
  "objMeta (setAnnotations a o') = (objMeta o')\<lparr>annotations := a\<rparr>"
  "objMeta (setLabels l o') = (objMeta o')\<lparr>labels := l\<rparr>"
  "getAnnotations (setAnnotations a o') = a"
  "objKind (setAnnotations a o') = objKind o'"
  "getName (setAnnotations a o') = getName o'"
  "getNamespace (setAnnotations a o') = getNamespace o'"
  by (simp_all add: setAnnotations_def setLabels_def getAnnotations_def getName_def getNamespace_def)

end
