(* ===== verification/World.thy ===== *)
theory World
  imports Api
begin

text \<open>
  The reconciler's surroundings. What \<^verbatim>\<open>src/\<close> does not contain is a parameter, the record \<open>env\<close>:
  the Kubernetes client and its cache, the uncached reader, the clock, and the functions of the
  Kubernetes libraries. The state \<open>st\<close> threads the outside world through every call and holds what
  the controller itself keeps: the Prometheus metrics of \<^verbatim>\<open>internal/controller/metrics.go\<close> and the
  events it records. The history \<open>calls\<close> of client calls is there for the specifications only.
\<close>

section \<open>History, metrics, events\<close>

datatype call =
    CGet kind key "goerr + obj"
  | CRead kind key "goerr + obj"
  | CCreate obj "goerr option"
  | CUpdate obj "goerr + obj"
  | CDelete obj string string "goerr option"
  | CListNamespaces "goerr + string list"
  | CListSyncs "goerr + namespaceSync list"
  | CGetSync key "goerr + namespaceSync"
  | CUpdateSync namespaceSync "goerr option"
  | CUpdateStatus namespaceSync "goerr option"

datatype counter = SyncSuccess | SyncFailure | SyncConflict | CleanupSuccess | CleanupFailure

datatype eventType = EventTypeNormal | EventTypeWarning

record event =
  evObject :: key
  evType :: eventType
  evReason :: string
  evMessage :: string

record 'w st =
  world :: 'w
  counters :: "counter \<Rightarrow> string \<Rightarrow> string \<Rightarrow> nat"
  durations :: "(string \<times> string \<times> int) list"
  managed :: "string \<Rightarrow> string \<Rightarrow> nat"
  events :: "event list"
  calls :: "call list"

section \<open>Parameters\<close>

text \<open>
  \<open>cl_\<close> fields are the embedded \<open>client.Client\<close>; \<open>apiReader\<close> and \<open>hasRecorder\<close> the other fields of
  \<open>NamespaceSyncReconciler\<close> (a nil recorder is \<open>False\<close>); the rest are library functions:
  \<open>apierrors.IsNotFound\<close>, \<open>equality.Semantic.DeepEqual\<close>, \<open>controllerutil\<close>'s finalizer functions,
  \<open>meta.SetStatusCondition\<close>, \<open>metav1.Time.IsZero\<close>, \<open>reconcile.TerminalError\<close>,
  \<open>retry.RetryOnConflict\<close> with \<open>retry.DefaultRetry\<close>, and the Unicode table behind \<open>%q\<close>.
\<close>

record 'w env =
  cl_get :: "kind \<Rightarrow> key \<Rightarrow> 'w \<Rightarrow> (goerr + obj) \<times> 'w"
  cl_create :: "obj \<Rightarrow> 'w \<Rightarrow> goerr option \<times> 'w"
  cl_update :: "obj \<Rightarrow> 'w \<Rightarrow> (goerr + obj) \<times> 'w"
  cl_delete :: "obj \<Rightarrow> string \<Rightarrow> string \<Rightarrow> 'w \<Rightarrow> goerr option \<times> 'w"
  cl_list_namespaces :: "'w \<Rightarrow> (goerr + string list) \<times> 'w"
  cl_list_syncs :: "'w \<Rightarrow> (goerr + namespaceSync list) \<times> 'w"
  cl_get_sync :: "key \<Rightarrow> 'w \<Rightarrow> (goerr + namespaceSync) \<times> 'w"
  cl_update_sync :: "namespaceSync \<Rightarrow> 'w \<Rightarrow> goerr option \<times> 'w"
  cl_update_status :: "namespaceSync \<Rightarrow> 'w \<Rightarrow> goerr option \<times> 'w"
  apiReader :: "(kind \<Rightarrow> key \<Rightarrow> 'w \<Rightarrow> (goerr + obj) \<times> 'w) option"
  hasRecorder :: bool
  clock :: "'w \<Rightarrow> goTime \<times> 'w"
  isNotFound :: "goerr \<Rightarrow> bool"
  semDeepEqual :: "obj \<Rightarrow> obj \<Rightarrow> bool"
  containsFinalizer :: "namespaceSync \<Rightarrow> string \<Rightarrow> bool"
  addFinalizer :: "namespaceSync \<Rightarrow> string \<Rightarrow> namespaceSync"
  removeFinalizer :: "namespaceSync \<Rightarrow> string \<Rightarrow> namespaceSync"
  setStatusCondition :: "condition list \<Rightarrow> condition \<Rightarrow> condition list"
  timeIsZero :: "goTime option \<Rightarrow> bool"
  terminalError :: "goerr \<Rightarrow> goerr"
  retryOnConflict :: "('w st \<Rightarrow> goerr option \<times> 'w st) \<Rightarrow> 'w st \<Rightarrow> goerr option \<times> 'w st"
  unicodePrint :: "nat \<Rightarrow> bool"

section \<open>Calls\<close>

definition perform :: "('w \<Rightarrow> 'r \<times> 'w) \<Rightarrow> ('r \<Rightarrow> call) \<Rightarrow> 'w st \<Rightarrow> 'r \<times> 'w st" where
  "perform f c s = (let (r, w) = f (world s) in (r, s\<lparr>world := w, calls := calls s @ [c r]\<rparr>))"

definition doGet :: "'w env \<Rightarrow> kind \<Rightarrow> key \<Rightarrow> 'w st \<Rightarrow> (goerr + obj) \<times> 'w st" where
  "doGet E k key = perform (cl_get E k key) (CGet k key)"

definition doCreate :: "'w env \<Rightarrow> obj \<Rightarrow> 'w st \<Rightarrow> goerr option \<times> 'w st" where
  "doCreate E x = perform (cl_create E x) (CCreate x)"

definition doUpdate :: "'w env \<Rightarrow> obj \<Rightarrow> 'w st \<Rightarrow> (goerr + obj) \<times> 'w st" where
  "doUpdate E x = perform (cl_update E x) (CUpdate x)"

definition doDelete :: "'w env \<Rightarrow> obj \<Rightarrow> string \<Rightarrow> string \<Rightarrow> 'w st \<Rightarrow> goerr option \<times> 'w st" where
  "doDelete E x uid rv = perform (cl_delete E x uid rv) (CDelete x uid rv)"

definition doListNamespaces :: "'w env \<Rightarrow> 'w st \<Rightarrow> (goerr + string list) \<times> 'w st" where
  "doListNamespaces E = perform (cl_list_namespaces E) CListNamespaces"

definition doListSyncs :: "'w env \<Rightarrow> 'w st \<Rightarrow> (goerr + namespaceSync list) \<times> 'w st" where
  "doListSyncs E = perform (cl_list_syncs E) CListSyncs"

definition doGetSync :: "'w env \<Rightarrow> key \<Rightarrow> 'w st \<Rightarrow> (goerr + namespaceSync) \<times> 'w st" where
  "doGetSync E key = perform (cl_get_sync E key) (CGetSync key)"

definition doUpdateSync :: "'w env \<Rightarrow> namespaceSync \<Rightarrow> 'w st \<Rightarrow> goerr option \<times> 'w st" where
  "doUpdateSync E n = perform (cl_update_sync E n) (CUpdateSync n)"

definition doUpdateStatus :: "'w env \<Rightarrow> namespaceSync \<Rightarrow> 'w st \<Rightarrow> goerr option \<times> 'w st" where
  "doUpdateStatus E n = perform (cl_update_status E n) (CUpdateStatus n)"

text \<open>\<open>time.Now()\<close>.\<close>

definition timeNow :: "'w env \<Rightarrow> 'w st \<Rightarrow> goTime \<times> 'w st" where
  "timeNow E s = (let (t, w) = clock E (world s) in (t, s\<lparr>world := w\<rparr>))"

lemmas call_defs = doGet_def doCreate_def doUpdate_def doDelete_def doListNamespaces_def
  doListSyncs_def doGetSync_def doUpdateSync_def doUpdateStatus_def

section \<open>Metrics (\<^verbatim>\<open>metrics.go\<close>) and events\<close>

definition incCounter :: "counter \<Rightarrow> string \<Rightarrow> string \<Rightarrow> 'w st \<Rightarrow> 'w st" where
  "incCounter c ns ty s = s\<lparr>counters := (\<lambda>c' ns' ty'. counters s c' ns' ty' +
     (if c' = c \<and> ns' = ns \<and> ty' = ty then 1 else 0))\<rparr>"

definition recordSyncSuccess :: "string \<Rightarrow> string \<Rightarrow> 'w st \<Rightarrow> 'w st" where
  "recordSyncSuccess ns ty = incCounter SyncSuccess ns ty"

definition recordSyncFailure :: "string \<Rightarrow> string \<Rightarrow> 'w st \<Rightarrow> 'w st" where
  "recordSyncFailure ns ty = incCounter SyncFailure ns ty"

definition recordSyncConflict :: "string \<Rightarrow> string \<Rightarrow> 'w st \<Rightarrow> 'w st" where
  "recordSyncConflict ns ty = incCounter SyncConflict ns ty"

definition recordCleanupSuccess :: "string \<Rightarrow> string \<Rightarrow> 'w st \<Rightarrow> 'w st" where
  "recordCleanupSuccess ns ty = incCounter CleanupSuccess ns ty"

definition recordCleanupFailure :: "string \<Rightarrow> string \<Rightarrow> 'w st \<Rightarrow> 'w st" where
  "recordCleanupFailure ns ty = incCounter CleanupFailure ns ty"

text \<open>\<open>syncDurationHistogram\<close>'s \<open>Observe\<close> (in nanoseconds) and \<open>resourceCount\<close>'s \<open>Set\<close>.\<close>

definition observeDuration :: "string \<Rightarrow> string \<Rightarrow> int \<Rightarrow> 'w st \<Rightarrow> 'w st" where
  "observeDuration name ty d s = s\<lparr>durations := durations s @ [(name, ty, d)]\<rparr>"

definition setManaged :: "string \<Rightarrow> string \<Rightarrow> nat \<Rightarrow> 'w st \<Rightarrow> 'w st" where
  "setManaged name ty n s = s\<lparr>managed := (\<lambda>name' ty'. if name' = name \<and> ty' = ty then n else managed s name' ty')\<rparr>"

text \<open>\<open>if r.Recorder != nil { r.Recorder.Event(...) }\<close>.\<close>

definition recordEvent :: "'w env \<Rightarrow> namespaceSync \<Rightarrow> eventType \<Rightarrow> string \<Rightarrow> string \<Rightarrow> 'w st \<Rightarrow> 'w st" where
  "recordEvent E n ty reason msg s =
     (if hasRecorder E
      then s\<lparr>events := events s @ [\<lparr>evObject = syncKey n, evType = ty, evReason = reason, evMessage = msg\<rparr>]\<rparr>
      else s)"

lemmas record_defs = recordSyncSuccess_def recordSyncFailure_def recordSyncConflict_def
  recordCleanupSuccess_def recordCleanupFailure_def

section \<open>Frames\<close>

lemma perform_frame [simp]:
  "counters (snd (perform f c s)) = counters s" "durations (snd (perform f c s)) = durations s"
  "managed (snd (perform f c s)) = managed s" "events (snd (perform f c s)) = events s"
  by (simp_all add: perform_def split: prod.split)

lemma perform_calls: "calls (snd (perform f c s)) = calls s @ [c (fst (perform f c s))]"
  by (simp add: perform_def split: prod.split)

lemma perform_result: "perform f c s = (r, s') \<Longrightarrow> calls s' = calls s @ [c r]"
  using perform_calls [of f c s] by simp

lemma timeNow_frame [simp]:
  "calls (snd (timeNow E s)) = calls s" "counters (snd (timeNow E s)) = counters s"
  "events (snd (timeNow E s)) = events s"
  by (simp_all add: timeNow_def split: prod.split)

lemma incCounter_frame [simp]:
  "calls (incCounter c a b s) = calls s" "world (incCounter c a b s) = world s"
  "events (incCounter c a b s) = events s"
  by (simp_all add: incCounter_def)

lemma record_frame [simp]:
  "calls (recordSyncSuccess a b s) = calls s" "world (recordSyncSuccess a b s) = world s"
  "calls (recordSyncFailure a b s) = calls s" "world (recordSyncFailure a b s) = world s"
  "calls (recordSyncConflict a b s) = calls s" "world (recordSyncConflict a b s) = world s"
  "calls (recordCleanupSuccess a b s) = calls s" "world (recordCleanupSuccess a b s) = world s"
  "calls (recordCleanupFailure a b s) = calls s" "world (recordCleanupFailure a b s) = world s"
  by (simp_all add: record_defs)

lemma misc_frame [simp]:
  "calls (recordEvent E n ty r m s) = calls s" "world (recordEvent E n ty r m s) = world s"
  "counters (recordEvent E n ty r m s) = counters s"
  "calls (observeDuration a b d s) = calls s" "world (observeDuration a b d s) = world s"
  "calls (setManaged a b k s) = calls s" "world (setManaged a b k s) = world s"
  by (simp_all add: recordEvent_def observeDuration_def setManaged_def)

section \<open>What a step may do\<close>

text \<open>
  The loops of the controller repeat an operation and keep whatever relation between states it keeps,
  as long as the relation is a preorder (\<open>step_order\<close>). The relations used say that the history grew by
  calls that follow a protocol \<open>Q\<close>, which must be closed under composition (\<open>call_protocol\<close>).
\<close>

locale step_order =
  fixes R :: "'w st \<Rightarrow> 'w st \<Rightarrow> bool"
  assumes step_refl: "R s s"
    and step_trans: "R a b \<Longrightarrow> R b c \<Longrightarrow> R a c"

definition extBy :: "(call list \<Rightarrow> bool) \<Rightarrow> 'w st \<Rightarrow> 'w st \<Rightarrow> bool" where
  "extBy Q s s' \<longleftrightarrow> (\<exists>cs. calls s' = calls s @ cs \<and> Q cs)"

locale call_protocol =
  fixes Q :: "call list \<Rightarrow> bool"
  assumes Q_Nil: "Q []"
    and Q_append: "Q a \<Longrightarrow> Q b \<Longrightarrow> Q (a @ b)"

sublocale call_protocol \<subseteq> step_order "extBy Q"
proof unfold_locales
  fix s a b c :: "'a st"
  show "extBy Q s s" using Q_Nil by (auto simp: extBy_def)
  show "extBy Q a b \<Longrightarrow> extBy Q b c \<Longrightarrow> extBy Q a c" using Q_append by (fastforce simp: extBy_def)
qed

lemma extByI: "calls s' = calls s @ cs \<Longrightarrow> Q cs \<Longrightarrow> extBy Q s s'"
  by (auto simp: extBy_def)

lemma extBy_frame: "calls s' = calls s'' \<Longrightarrow> extBy Q s s' = extBy Q s s''"
  "calls s = calls s'' \<Longrightarrow> extBy Q s s' = extBy Q s'' s'"
  by (simp_all add: extBy_def)

context call_protocol
begin

lemma ext_same_calls: "calls s' = calls s \<Longrightarrow> extBy Q s s'"
  using Q_Nil by (auto simp: extBy_def)

lemma ext_perform: "Q [c (fst (perform f c s))] \<Longrightarrow> extBy Q s (snd (perform f c s))"
  by (rule extByI [OF perform_calls])

end

interpretation each: call_protocol "list_all P"
  by unfold_locales auto

text \<open>
  Every call of sort \<open>T\<close> directly follows one that permits it: \<open>W\<close> relates a call to the one before
  it. Such a protocol composes, because a history that starts with a call of sort \<open>T\<close> is refused.
\<close>

definition precededBy :: "(call \<Rightarrow> bool) \<Rightarrow> (call \<Rightarrow> call \<Rightarrow> bool) \<Rightarrow> call list \<Rightarrow> bool" where
  "precededBy T W cs \<longleftrightarrow> (\<forall>a c b. cs = a @ c # b \<and> T c \<longrightarrow> a \<noteq> [] \<and> W (last a) c)"

lemma precededBy_append:
  assumes "precededBy T W xs" and "precededBy T W ys"
  shows "precededBy T W (xs @ ys)"
  unfolding precededBy_def
proof (intro allI impI)
  fix a c b
  assume eq: "xs @ ys = a @ c # b \<and> T c"
  show "a \<noteq> [] \<and> W (last a) c"
  proof (cases "length a < length xs")
    case True
    with eq obtain us where "xs = a @ us" "us @ ys = c # b" "us \<noteq> []"
      by (auto simp: append_eq_append_conv2)
    then have "xs = a @ c # tl us" by (cases us) auto
    with assms(1) eq show ?thesis unfolding precededBy_def by blast
  next
    case False
    with eq obtain t where "a = xs @ t" and "ys = t @ c # b"
      by (auto simp: append_eq_append_conv2)
    with assms(2) eq show ?thesis unfolding precededBy_def by (metis append_is_Nil_conv last_appendR)
  qed
qed

interpretation prec: call_protocol "precededBy T W"
proof unfold_locales
  show "precededBy T W []" by (simp add: precededBy_def)
  show "precededBy T W a \<Longrightarrow> precededBy T W b \<Longrightarrow> precededBy T W (a @ b)" for a b
    by (rule precededBy_append)
qed

lemma precededBy_none: "list_all (\<lambda>c. \<not> T c) cs \<Longrightarrow> precededBy T W cs"
  by (auto simp: precededBy_def)

lemma precededBy_pair: "\<not> T c \<Longrightarrow> W c d \<Longrightarrow> precededBy T W [c, d]"
  by (auto simp: precededBy_def Cons_eq_append_conv)

lemma precededBy_Cons: "\<not> T c \<Longrightarrow> precededBy T W cs \<Longrightarrow> precededBy T W (c # cs)"
  using prec.Q_append [OF precededBy_none [of T "[c]"]] by simp

lemma precededBy_mono:
  "precededBy T W cs \<Longrightarrow> (\<And>c d. T d \<Longrightarrow> W c d \<Longrightarrow> W' c d) \<Longrightarrow> precededBy T W' cs"
  by (auto simp: precededBy_def)

text \<open>A call that changes the cluster's Secrets and ConfigMaps, and the object it is about.\<close>

fun writeTarget :: "call \<Rightarrow> obj option" where
  "writeTarget (CCreate x r) = Some x"
| "writeTarget (CUpdate x r) = Some x"
| "writeTarget (CDelete x u v r) = Some x"
| "writeTarget _ = None"

definition isWrite :: "call \<Rightarrow> bool" where
  "isWrite c \<longleftrightarrow> writeTarget c \<noteq> None"

lemma isWrite_simps [simp]:
  "isWrite (CCreate x q)" "isWrite (CUpdate x r)" "isWrite (CDelete x u v q)"
  "\<not> isWrite (CGet k key r)" "\<not> isWrite (CRead k key r)" "\<not> isWrite (CListNamespaces a)"
  "\<not> isWrite (CListSyncs b)" "\<not> isWrite (CGetSync key c)" "\<not> isWrite (CUpdateSync n q)" "\<not> isWrite (CUpdateStatus n q)"
  by (simp_all add: isWrite_def)

fun syncWrite :: "call \<Rightarrow> bool" where
  "syncWrite (CUpdateSync n r) = True"
| "syncWrite (CUpdateStatus n r) = True"
| "syncWrite _ = False"

section \<open>Retries\<close>

text \<open>
  What \<open>retry.RetryOnConflict\<close> documents, without its choice of when to stop: it runs the function
  until an attempt's result is the one it returns, and only repeats it after an error.
\<close>

inductive attempts :: "('s \<Rightarrow> goerr option \<times> 's) \<Rightarrow> 's \<Rightarrow> goerr option \<Rightarrow> 's \<Rightarrow> bool"
  for f :: "'s \<Rightarrow> goerr option \<times> 's" where
  last_attempt: "f s = (r, s') \<Longrightarrow> attempts f s r s'"
| next_attempt: "f s = (Some e, t) \<Longrightarrow> attempts f t r s' \<Longrightarrow> attempts f s r s'"

definition retriesRuns :: "'w env \<Rightarrow> bool" where
  "retriesRuns E \<longleftrightarrow> (\<forall>f s. attempts f s (fst (retryOnConflict E f s)) (snd (retryOnConflict E f s)))"

text \<open>The calls of one or more attempts, each of which is an \<open>R\<close>.\<close>

inductive retried :: "(call list \<Rightarrow> goerr option \<Rightarrow> bool) \<Rightarrow> call list \<Rightarrow> goerr option \<Rightarrow> bool"
  for R :: "call list \<Rightarrow> goerr option \<Rightarrow> bool" where
  once: "R cs r \<Longrightarrow> retried R cs r"
| more: "R cs (Some e) \<Longrightarrow> retried R ds r \<Longrightarrow> retried R (cs @ ds) r"

lemma attempts_retried:
  assumes "attempts f s r s'" and "\<And>s r s'. f s = (r, s') \<Longrightarrow> \<exists>cs. calls s' = calls s @ cs \<and> R cs r"
  shows "\<exists>cs. calls s' = calls s @ cs \<and> retried R cs r"
  using assms(1)
proof induction
  case (last_attempt s r s')
  with assms(2) show ?case by (blast intro: retried.once)
next
  case (next_attempt s e t r s')
  then obtain cs ds where "calls t = calls s @ cs" "R cs (Some e)" "calls s' = calls t @ ds" "retried R ds r"
    using assms(2) by blast
  then show ?case by (intro exI [of _ "cs @ ds"]) (simp add: retried.more)
qed

lemma retry_run:
  assumes "retriesRuns E" and "\<And>s r s'. f s = (r, s') \<Longrightarrow> \<exists>cs. calls s' = calls s @ cs \<and> R cs r"
    and "retryOnConflict E f s = (r, s')"
  shows "\<exists>cs. calls s' = calls s @ cs \<and> retried R cs r"
proof -
  have "attempts f s r s'" using assms(1,3) by (metis fst_conv retriesRuns_def snd_conv)
  then show ?thesis by (rule attempts_retried) (rule assms(2))
qed

lemma retried_all: "retried R cs r \<Longrightarrow> (\<And>cs r. R cs r \<Longrightarrow> list_all P cs) \<Longrightarrow> list_all P cs"
  by (induction rule: retried.induct) auto

end
