(* ===== verification/Samples.thy ===== *)
theory Samples
  imports World
begin

text \<open>
  Small concrete objects for the witnesses: theorems that apply a property at an input where its
  hypotheses hold.
\<close>

definition sampleTime :: goTime where
  "sampleTime = \<lparr>unixSec = 1700000000, nanos = 0, zoneOffset = 0\<rparr>"

definition sampleMeta :: "string \<Rightarrow> string \<Rightarrow> gomap \<Rightarrow> objectMeta" where
  "sampleMeta ns name a = emptyMeta\<lparr>metaName := name, metaNamespace := ns, metaUID := ''u'',
     resourceVersion := ''1'', annotations := a\<rparr>"

definition sampleSync :: "string \<Rightarrow> string \<Rightarrow> string list \<Rightarrow> string list \<Rightarrow> namespaceSync" where
  "sampleSync name src targets secrets =
     \<lparr>nsMeta = sampleMeta ''ops'' name None,
      Spec = \<lparr>SourceNamespace = src, TargetNamespaces = targets, ConfigMapName = [],
              SecretName = secrets, Exclude = [], ResourceFilters = None\<rparr>,
      Status = \<lparr>LastSyncTime = sampleTime, SyncedNamespaces = [], FailedNamespaces = None,
                Conditions = [], ObservedGeneration = 0\<rparr>\<rparr>"

definition sampleSecret :: "string \<Rightarrow> string \<Rightarrow> gomap \<Rightarrow> obj" where
  "sampleSecret ns name a = ObjSecret \<lparr>secMeta = sampleMeta ns name a, secImmutable = None,
     secData = Some (fmupd ''k'' ''v'' fmempty), secStringData = None, secType = ''Opaque''\<rparr>"

lemma sampleSync_simps [simp]:
  "nsMeta (sampleSync name src ts ss) = sampleMeta ''ops'' name None"
  "SourceNamespace (Spec (sampleSync name src ts ss)) = src"
  "TargetNamespaces (Spec (sampleSync name src ts ss)) = ts"
  "SecretName (Spec (sampleSync name src ts ss)) = ss"
  "ConfigMapName (Spec (sampleSync name src ts ss)) = []"
  "Exclude (Spec (sampleSync name src ts ss)) = []"
  "ResourceFilters (Spec (sampleSync name src ts ss)) = None"
  by (simp_all add: sampleSync_def)

lemma sampleSecret_simps [simp]:
  "objMeta (sampleSecret ns name a) = sampleMeta ns name a"
  "objKind (sampleSecret ns name a) = KSecret"
  "getName (sampleSecret ns name a) = name"
  "getNamespace (sampleSecret ns name a) = ns"
  "getAnnotations (sampleSecret ns name a) = a"
  "objKey (sampleSecret ns name a) = (ns, name)"
  by (simp_all add: sampleSecret_def sampleMeta_def getName_def getNamespace_def getAnnotations_def objKey_def)

lemma sampleMeta_simps [simp]:
  "metaName (sampleMeta ns name a) = name" "metaNamespace (sampleMeta ns name a) = ns"
  "deletionTimestamp (sampleMeta ns name a) = None" "annotations (sampleMeta ns name a) = a"
  "labels (sampleMeta ns name a) = None"
  by (simp_all add: sampleMeta_def emptyMeta_def)

end
