(* ===== verification/Filters.thy ===== *)
theory Filters
  imports GlobSpec Samples
begin

text \<open>
  \<^verbatim>\<open>internal/controller/filters.go\<close> and \<^verbatim>\<open>contains\<close> of \<^verbatim>\<open>utils.go\<close>: which names a resource filter lets
  through and which namespaces a NamespaceSync targets. The filter loops rely on one law of the
  matcher, that whether a pattern is an error does not depend on the name; it is the interface
  \<open>glob_matcher\<close>, and \<open>pathMatch\<close> provides it.
\<close>

section \<open>Slices\<close>

fun contains :: "string list \<Rightarrow> string \<Rightarrow> bool" where
  "contains [] item = False"
| "contains (s # ss) item = (if s = item then True else contains ss item)"

lemma contains_iff [simp]: "contains xs x \<longleftrightarrow> x \<in> set xs"
  by (induction xs) auto

section \<open>Resource filters\<close>

text \<open>The two loops of \<open>shouldSyncResource\<close>, over the matcher they call.\<close>

fun excludeLoop :: "(string \<Rightarrow> string \<Rightarrow> goerr + bool) \<Rightarrow> string \<Rightarrow> string list \<Rightarrow> bool" where
  "excludeLoop m name [] = False"
| "excludeLoop m name (p # ps) =
     (case m p name of
        Inl err \<Rightarrow> True
      | Inr matched \<Rightarrow> if matched then True else excludeLoop m name ps)"

fun includeLoop :: "(string \<Rightarrow> string \<Rightarrow> goerr + bool) \<Rightarrow> string \<Rightarrow> string list \<Rightarrow> bool" where
  "includeLoop m name [] = False"
| "includeLoop m name (p # ps) =
     (case m p name of
        Inl err \<Rightarrow> includeLoop m name ps
      | Inr matched \<Rightarrow> if matched then True else includeLoop m name ps)"

definition shouldSyncResource :: "string \<Rightarrow> resourceFilter option \<Rightarrow> bool" where
  "shouldSyncResource name flt = (case flt of
     None \<Rightarrow> True
   | Some f \<Rightarrow>
      (if excludeLoop pathMatch name (filterExclude f) then False
       else if Include f = [] then True
       else includeLoop pathMatch name (Include f)))"

text \<open>The first pattern the matcher rejects, over the concatenated lists \<open>validateResourceFilter\<close> walks.\<close>

fun firstInvalid :: "(string \<Rightarrow> string \<Rightarrow> goerr + bool) \<Rightarrow> string list \<Rightarrow> (string \<times> goerr) option" where
  "firstInvalid m [] = None"
| "firstInvalid m (p # ps) =
     (case m p '''' of Inl err \<Rightarrow> Some (p, err) | Inr matched \<Rightarrow> firstInvalid m ps)"

locale glob_matcher =
  fixes m :: "string \<Rightarrow> string \<Rightarrow> goerr + bool"
    and wf :: "string \<Rightarrow> bool"
  assumes match_wf: "wf p \<Longrightarrow> \<exists>b. m p n = Inr b"
    and match_bad: "\<not> wf p \<Longrightarrow> \<exists>e. m p n = Inl e"
begin

lemma excludeLoop_iff: "excludeLoop m n ps \<longleftrightarrow> (\<exists>p \<in> set ps. \<not> wf p \<or> m p n = Inr True)"
proof (induction ps)
  case (Cons p ps)
  then show ?case
    using match_wf [of p n] match_bad [of p n] by (cases "wf p") (auto split: if_splits)
qed simp

lemma includeLoop_iff: "includeLoop m n ps \<longleftrightarrow> (\<exists>p \<in> set ps. m p n = Inr True)"
  by (induction ps) (auto split: sum.splits)

lemma firstInvalid_None: "firstInvalid m ps = None \<longleftrightarrow> (\<forall>p \<in> set ps. wf p)"
proof (induction ps)
  case (Cons p ps)
  then show ?case
    using match_wf [of p "''''"] match_bad [of p "''''"] by (cases "wf p") auto
qed simp

lemma firstInvalid_Some: "firstInvalid m ps = Some (p, e) \<Longrightarrow> p \<in> set ps \<and> \<not> wf p \<and> m p '''' = Inl e"
proof (induction ps)
  case (Cons q ps)
  then show ?case
    using match_wf [of q "''''"] match_bad [of q "''''"] by (cases "wf q") auto
qed simp

text \<open>What validation accepts never meets a matching error later, whatever the name.\<close>

lemma validated_never_errs:
  "firstInvalid m ps = None \<Longrightarrow> p \<in> set ps \<Longrightarrow> \<exists>b. m p n = Inr b"
  using firstInvalid_None match_wf by blast

end

definition validPattern :: "string \<Rightarrow> bool" where
  "validPattern p = (parseGlob p \<noteq> None)"

interpretation pm: glob_matcher pathMatch validPattern
proof unfold_locales
  fix p n
  show "validPattern p \<Longrightarrow> \<exists>b. pathMatch p n = Inr b"
    by (cases "pathMatch p n") (auto simp: validPattern_def pathMatch_error)
  show "\<not> validPattern p \<Longrightarrow> \<exists>e. pathMatch p n = Inl e"
    using pathMatch_error [of p n] by (auto simp: validPattern_def)
qed

text \<open>The declarative reading of a filter.\<close>

definition globs :: "string \<Rightarrow> string \<Rightarrow> bool" where
  "globs p n = (\<exists>ts. parseGlob p = Some ts \<and> gmatch ts n)"

definition filterAdmits :: "resourceFilter \<Rightarrow> string \<Rightarrow> bool" where
  "filterAdmits f n \<longleftrightarrow>
     (\<forall>p \<in> set (filterExclude f). validPattern p \<and> \<not> globs p n) \<and>
     (Include f = [] \<or> (\<exists>p \<in> set (Include f). globs p n))"

lemma pathMatch_globs: "plainName n \<Longrightarrow> pathMatch p n = Inr True \<longleftrightarrow> globs p n"
  by (auto simp: pathMatch_decides globs_def split: option.splits)

lemma shouldSyncResource_iff:
  "plainName n \<Longrightarrow> shouldSyncResource n (Some f) \<longleftrightarrow> filterAdmits f n"
  by (auto simp: shouldSyncResource_def filterAdmits_def pm.excludeLoop_iff pm.includeLoop_iff
      pathMatch_globs)

lemma shouldSyncResource_None [simp]: "shouldSyncResource n None"
  by (simp add: shouldSyncResource_def)

section \<open>Target namespaces\<close>

definition systemNamespaces :: "string list" where
  "systemNamespaces = [''kube-system'', ''kube-public'', ''kube-node-lease'', ''default'',
     ''k8s-namespace-sync-system'']"

definition isSystemNamespace :: "string \<Rightarrow> bool" where
  "isSystemNamespace ns = contains systemNamespaces ns"

definition targetsNamespace :: "string \<Rightarrow> namespaceSync \<Rightarrow> bool" where
  "targetsNamespace ns n =
     (if isSystemNamespace ns \<or> ns = SourceNamespace (Spec n) \<or> contains (Exclude (Spec n)) ns then False
      else if TargetNamespaces (Spec n) \<noteq> [] then contains (TargetNamespaces (Spec n)) ns
      else True)"

text \<open>\<open>shouldSyncToNamespace\<close> is \<open>targetsNamespace\<close> and a log line.\<close>

definition shouldSyncToNamespace :: "string \<Rightarrow> namespaceSync \<Rightarrow> bool" where
  "shouldSyncToNamespace ns n = (let shouldSync = targetsNamespace ns n in shouldSync)"

lemma targetsNamespace_iff:
  "targetsNamespace ns n \<longleftrightarrow>
     ns \<notin> set systemNamespaces \<and> ns \<noteq> SourceNamespace (Spec n) \<and> ns \<notin> set (Exclude (Spec n)) \<and>
     (TargetNamespaces (Spec n) = [] \<or> ns \<in> set (TargetNamespaces (Spec n)))"
  by (auto simp: targetsNamespace_def isSystemNamespace_def)

lemma shouldSyncToNamespace_eq [simp]: "shouldSyncToNamespace = targetsNamespace"
  by (auto simp: shouldSyncToNamespace_def fun_eq_iff)

end
