(* ===== verification/Conflicts.thy ===== *)
theory Conflicts
  imports Filters
begin

text \<open>
  \<^verbatim>\<open>internal/controller/conflicts.go\<close>, and the annotations of \<^verbatim>\<open>resources.go\<close> it decides by: which
  other NamespaceSync (peer) owns an object, when an existing object may be overwritten, and which
  names a deletion may clean up. \<open>mayWrite\<close> is the policy the README states, over sets of peers. It is
  decided by two checks: whether a peer reads the target as its source, and \<open>overwriteAllowed\<close>, which
  \<open>copyConflictGuard\<close>, walking lists, is proved to implement.
\<close>

section \<open>Annotations\<close>

definition finalizerName :: string where
  "finalizerName = ''namespacesync.nsync.dev/finalizer''"

definition AnnotationSourceNamespace :: string where
  "AnnotationSourceNamespace = ''namespacesync.nsync.dev/source-namespace''"

definition AnnotationSourceName :: string where
  "AnnotationSourceName = ''namespacesync.nsync.dev/source-name''"

definition AnnotationLastSync :: string where
  "AnnotationLastSync = ''namespacesync.nsync.dev/last-sync''"

lemma annotation_keys_distinct [simp]:
  "AnnotationSourceNamespace \<noteq> AnnotationSourceName" "AnnotationSourceName \<noteq> AnnotationSourceNamespace"
  "AnnotationSourceNamespace \<noteq> AnnotationLastSync" "AnnotationLastSync \<noteq> AnnotationSourceNamespace"
  "AnnotationSourceName \<noteq> AnnotationLastSync" "AnnotationLastSync \<noteq> AnnotationSourceName"
  by (simp_all add: AnnotationSourceNamespace_def AnnotationSourceName_def AnnotationLastSync_def)

definition isManagedCopy :: "obj \<Rightarrow> string \<Rightarrow> bool" where
  "isManagedCopy x sourceNamespace =
     (let a = getAnnotations x in
      mapIndex a AnnotationSourceNamespace = sourceNamespace \<and> mapIndex a AnnotationSourceName = getName x)"

section \<open>Peers\<close>

definition errSyncConflict :: goerr where
  "errSyncConflict = ErrSentinel ''controller.errSyncConflict'' ''sync conflict''"

fun peerLoop :: "'w env \<Rightarrow> namespaceSync \<Rightarrow> namespaceSync list \<Rightarrow> namespaceSync list" where
  "peerLoop E self [] = []"
| "peerLoop E self (item # items) =
     (if (metaNamespace (nsMeta item) = metaNamespace (nsMeta self) \<and> metaName (nsMeta item) = metaName (nsMeta self))
         \<or> \<not> timeIsZero E (deletionTimestamp (nsMeta item))
      then peerLoop E self items
      else item # peerLoop E self items)"

definition listPeers :: "'w env \<Rightarrow> namespaceSync \<Rightarrow> 'w st \<Rightarrow> (goerr + namespaceSync list) \<times> 'w st" where
  "listPeers E self s = (case doListSyncs E s of
     (Inl err, s) \<Rightarrow> (Inl (wrapBack ''list NamespaceSyncs'' err), s)
   | (Inr items, s) \<Rightarrow> (Inr (peerLoop E self items), s))"

definition syncsName :: "namespaceSync \<Rightarrow> string \<Rightarrow> string \<Rightarrow> bool" where
  "syncsName n resourceType name =
     (let filters = (case ResourceFilters (Spec n) of
          None \<Rightarrow> \<lparr>filterSecrets = None, filterConfigMaps = None\<rparr> | Some f \<Rightarrow> f) in
      if resourceType = ''secret''
      then contains (SecretName (Spec n)) name \<and> shouldSyncResource name (filterSecrets filters)
      else if resourceType = ''configmap''
      then contains (ConfigMapName (Spec n)) name \<and> shouldSyncResource name (filterConfigMaps filters)
      else False)"

fun sourceOwner :: "namespaceSync list \<Rightarrow> string \<Rightarrow> string \<Rightarrow> string \<Rightarrow> namespaceSync option" where
  "sourceOwner [] ty ns name = None"
| "sourceOwner (p # ps) ty ns name =
     (if SourceNamespace (Spec p) = ns \<and> syncsName p ty name then Some p
      else sourceOwner ps ty ns name)"

text \<open>The loop of \<open>copyOwner\<close> with the owner found so far.\<close>

fun copyOwnerLoop :: "namespaceSync option \<Rightarrow> namespaceSync list \<Rightarrow> string \<Rightarrow> string \<Rightarrow> string \<Rightarrow> string \<Rightarrow> namespaceSync option" where
  "copyOwnerLoop owner [] ty src ns name = owner"
| "copyOwnerLoop owner (p # ps) ty src ns name =
     (if SourceNamespace (Spec p) \<noteq> src \<or> \<not> syncsName p ty name \<or> \<not> targetsNamespace ns p
      then copyOwnerLoop owner ps ty src ns name
      else if contains (TargetNamespaces (Spec p)) ns then Some p
      else copyOwnerLoop (if owner = None then Some p else owner) ps ty src ns name)"

definition copyOwner :: "namespaceSync list \<Rightarrow> string \<Rightarrow> string \<Rightarrow> string \<Rightarrow> string \<Rightarrow> namespaceSync option" where
  "copyOwner peers ty src ns name = copyOwnerLoop None peers ty src ns name"

definition showKey :: "string \<Rightarrow> string \<Rightarrow> string" where
  "showKey ns name = ns @ ''/'' @ name"

definition sourceConflict :: "namespaceSync list \<Rightarrow> string \<Rightarrow> string \<Rightarrow> string \<Rightarrow> goerr option" where
  "sourceConflict peers ty ns name = (case sourceOwner peers ty ns name of
     None \<Rightarrow> None
   | Some owner \<Rightarrow> Some (wrapFront errSyncConflict (ty @ '' '' @ showKey ns name
       @ '' is the source of NamespaceSync '' @ showKey (metaNamespace (nsMeta owner)) (metaName (nsMeta owner)))))"

definition copyConflictGuard :: "namespaceSync list \<Rightarrow> string \<Rightarrow> string \<Rightarrow> bool \<Rightarrow> obj \<Rightarrow> goerr option" where
  "copyConflictGuard peers ty sourceNamespace explicit existing =
     (let ns = getNamespace existing; name = getName existing in
      case (if \<not> isManagedCopy existing sourceNamespace then sourceConflict peers ty ns name else None) of
        Some err \<Rightarrow> Some err
      | None \<Rightarrow>
         (let from' = mapIndex (getAnnotations existing) AnnotationSourceNamespace in
          if from' = [] \<and> \<not> explicit then
            Some (wrapFront errSyncConflict (ty @ '' '' @ showKey ns name
              @ '' was not created by a NamespaceSync; list '' @ ns @ '' in targetNamespaces to overwrite it''))
          else if from' = [] \<or> from' = sourceNamespace then None
          else case copyOwner peers ty from' ns name of
            None \<Rightarrow> None
          | Some owner \<Rightarrow>
             (if explicit \<and> \<not> contains (TargetNamespaces (Spec owner)) ns then None
              else Some (wrapFront errSyncConflict (ty @ '' '' @ showKey ns name
                @ '' is synced from namespace '' @ from' @ '' by NamespaceSync ''
                @ showKey (metaNamespace (nsMeta owner)) (metaName (nsMeta owner)))))))"

fun unclaimed :: "namespaceSync list \<Rightarrow> string \<Rightarrow> string \<Rightarrow> string \<Rightarrow> string list \<Rightarrow> string list" where
  "unclaimed peers ty src ns [] = []"
| "unclaimed peers ty src ns (name # names) =
     (if copyOwner peers ty src ns name \<noteq> None \<or> sourceOwner peers ty ns name \<noteq> None
      then unclaimed peers ty src ns names
      else name # unclaimed peers ty src ns names)"

definition oneLine :: "goerr \<Rightarrow> string" where
  "oneLine err = replaceByte (errorMsg err) newline ''; ''"

section \<open>Searching for an owner\<close>

text \<open>
  The contract of the two searches: they find a candidate among the peers when there is one; the
  preferring one finds a preferred candidate when there is one.
\<close>

locale owner_search =
  fixes search :: "namespaceSync list \<Rightarrow> namespaceSync option"
    and cand :: "namespaceSync \<Rightarrow> bool"
  assumes search_Some: "search ps = Some p \<Longrightarrow> p \<in> set ps \<and> cand p"
    and search_None: "search ps = None \<Longrightarrow> p \<in> set ps \<Longrightarrow> \<not> cand p"
begin

lemma found_iff: "search ps \<noteq> None \<longleftrightarrow> (\<exists>p \<in> set ps. cand p)"
  using search_Some search_None by (cases "search ps") auto

lemma found_mono: "set ps \<subseteq> set qs \<Longrightarrow> search ps \<noteq> None \<Longrightarrow> search qs \<noteq> None"
  unfolding found_iff by blast

end

locale preferring_search = owner_search +
  fixes pref :: "namespaceSync \<Rightarrow> bool"
  assumes search_pref: "search ps = Some p \<Longrightarrow> q \<in> set ps \<Longrightarrow> cand q \<Longrightarrow> pref q \<Longrightarrow> pref p"
begin

lemma found_pref_iff: "search ps = Some p \<Longrightarrow> pref p \<longleftrightarrow> (\<exists>q \<in> set ps. cand q \<and> pref q)"
  using search_Some search_pref by blast

lemma not_preferred_iff:
  "(\<exists>p. search ps = Some p \<and> \<not> pref p) \<longleftrightarrow>
     (\<exists>p \<in> set ps. cand p) \<and> \<not> (\<exists>p \<in> set ps. cand p \<and> pref p)"
  using found_iff [of ps] found_pref_iff [of ps] by auto

end

definition readsAsSource :: "string \<Rightarrow> string \<Rightarrow> string \<Rightarrow> namespaceSync \<Rightarrow> bool" where
  "readsAsSource ty ns name p \<longleftrightarrow> SourceNamespace (Spec p) = ns \<and> syncsName p ty name"

definition syncsInto :: "string \<Rightarrow> string \<Rightarrow> string \<Rightarrow> string \<Rightarrow> namespaceSync \<Rightarrow> bool" where
  "syncsInto ty src ns name p \<longleftrightarrow>
     SourceNamespace (Spec p) = src \<and> syncsName p ty name \<and> targetsNamespace ns p"

definition listsExplicitly :: "string \<Rightarrow> namespaceSync \<Rightarrow> bool" where
  "listsExplicitly ns p \<longleftrightarrow> ns \<in> set (TargetNamespaces (Spec p))"

lemma copyOwnerLoop_Some:
  "copyOwnerLoop owner ps ty src ns name = Some p \<Longrightarrow>
     owner = Some p \<or> (p \<in> set ps \<and> syncsInto ty src ns name p)"
  by (induction ps arbitrary: owner) (force simp: syncsInto_def split: if_splits)+

lemma copyOwnerLoop_None:
  "copyOwnerLoop owner ps ty src ns name = None \<longleftrightarrow>
     owner = None \<and> (\<forall>p \<in> set ps. \<not> syncsInto ty src ns name p)"
  by (induction ps arbitrary: owner) (auto simp: syncsInto_def)

lemma copyOwnerLoop_pref:
  "copyOwnerLoop owner ps ty src ns name = Some p \<Longrightarrow> q \<in> set ps \<Longrightarrow> syncsInto ty src ns name q \<Longrightarrow>
     listsExplicitly ns q \<Longrightarrow> listsExplicitly ns p"
  by (induction ps arbitrary: owner)
    (auto simp: syncsInto_def listsExplicitly_def split: if_splits)

interpretation src: owner_search "\<lambda>ps. sourceOwner ps ty ns name" "readsAsSource ty ns name"
proof unfold_locales
  fix ps p
  show "sourceOwner ps ty ns name = Some p \<Longrightarrow> p \<in> set ps \<and> readsAsSource ty ns name p"
    by (induction ps) (auto simp: readsAsSource_def split: if_splits)
  show "sourceOwner ps ty ns name = None \<Longrightarrow> p \<in> set ps \<Longrightarrow> \<not> readsAsSource ty ns name p"
    by (induction ps) (auto simp: readsAsSource_def split: if_splits)
qed

interpretation copy: preferring_search "\<lambda>ps. copyOwner ps ty src ns name" "syncsInto ty src ns name"
  "listsExplicitly ns"
proof unfold_locales
  fix ps p q
  show "copyOwner ps ty src ns name = Some p \<Longrightarrow> p \<in> set ps \<and> syncsInto ty src ns name p"
    using copyOwnerLoop_Some [of None ps ty src ns name p] by (simp add: copyOwner_def)
  show "copyOwner ps ty src ns name = None \<Longrightarrow> p \<in> set ps \<Longrightarrow> \<not> syncsInto ty src ns name p"
    by (simp add: copyOwner_def copyOwnerLoop_None)
  show "copyOwner ps ty src ns name = Some p \<Longrightarrow> q \<in> set ps \<Longrightarrow> syncsInto ty src ns name q \<Longrightarrow>
      listsExplicitly ns q \<Longrightarrow> listsExplicitly ns p"
    unfolding copyOwner_def by (rule copyOwnerLoop_pref)
qed

section \<open>The policy\<close>

text \<open>
  The README's section on overlapping NamespaceSyncs, as what a NamespaceSync with source \<open>src\<close> may do at
  the place \<open>ns\<close>/\<open>name\<close>, where it finds nothing (\<open>None\<close>) or an object. \<open>explicit\<close> says that it lists the
  namespace in \<open>targetNamespaces\<close>; otherwise it reaches it by default.

  By default the place never receives anything while a peer reads it as its source, nor while a peer still
  syncs the copy there from another source; an object made by hand is never overwritten. In a listed
  namespace a NamespaceSync keeps its own copy whoever reads it, and otherwise takes over everything a peer
  does not read as its source, except a copy that a peer still syncs from another source and also lists
  the namespace for. A copy nobody syncs any more is taken over in either case.
\<close>

definition handMade :: "obj \<Rightarrow> bool" where
  "handMade x \<longleftrightarrow> mapIndex (getAnnotations x) AnnotationSourceNamespace = []"

definition stillSyncs :: "string \<Rightarrow> string \<Rightarrow> string \<Rightarrow> obj \<Rightarrow> namespaceSync \<Rightarrow> bool" where
  "stillSyncs ty ns name x p \<longleftrightarrow> syncsInto ty (mapIndex (getAnnotations x) AnnotationSourceNamespace) ns name p"

definition madeFrom :: "string \<Rightarrow> obj \<Rightarrow> bool" where
  "madeFrom src x \<longleftrightarrow> mapIndex (getAnnotations x) AnnotationSourceNamespace = src"

definition defaultMayWrite :: "namespaceSync set \<Rightarrow> string \<Rightarrow> string \<Rightarrow> string \<Rightarrow> string \<Rightarrow> obj option \<Rightarrow> bool" where
  "defaultMayWrite peers ty src ns name found \<longleftrightarrow>
     \<not> (\<exists>p \<in> peers. readsAsSource ty ns name p) \<and>
     (\<forall>x. found = Some x \<longrightarrow> \<not> handMade x \<and> (madeFrom src x \<or> \<not> (\<exists>p \<in> peers. stillSyncs ty ns name x p)))"

definition explicitMayWrite :: "namespaceSync set \<Rightarrow> string \<Rightarrow> string \<Rightarrow> string \<Rightarrow> string \<Rightarrow> obj option \<Rightarrow> bool" where
  "explicitMayWrite peers ty src ns name found \<longleftrightarrow>
     (\<forall>x. found = Some x \<longrightarrow> isManagedCopy x src \<or>
        (\<not> (\<exists>p \<in> peers. readsAsSource ty ns name p) \<and>
         (handMade x \<or> madeFrom src x \<or> \<not> (\<exists>p \<in> peers. stillSyncs ty ns name x p \<and> listsExplicitly ns p))))"

definition mayWrite :: "namespaceSync set \<Rightarrow> string \<Rightarrow> string \<Rightarrow> bool \<Rightarrow> string \<Rightarrow> string \<Rightarrow> obj option \<Rightarrow> bool" where
  "mayWrite peers ty src explicit ns name found \<longleftrightarrow>
     (if explicit then explicitMayWrite peers ty src ns name found else defaultMayWrite peers ty src ns name found)"

text \<open>
  The part of it the guard decides, of an object that was found. The other part, that by default nothing
  is written where a peer reads its source, is decided before the target is read.
\<close>

definition overwriteAllowed :: "namespaceSync set \<Rightarrow> string \<Rightarrow> string \<Rightarrow> bool \<Rightarrow> obj \<Rightarrow> bool" where
  "overwriteAllowed peers ty src explicit x \<longleftrightarrow>
     (let ns = getNamespace x; name = getName x;
          from' = mapIndex (getAnnotations x) AnnotationSourceNamespace in
      (isManagedCopy x src \<or> \<not> (\<exists>p \<in> peers. readsAsSource ty ns name p)) \<and>
      (if from' = [] then explicit
       else from' = src \<or> \<not> (\<exists>p \<in> peers. syncsInto ty from' ns name p) \<or>
         (explicit \<and> \<not> (\<exists>p \<in> peers. syncsInto ty from' ns name p \<and> listsExplicitly ns p))))"

lemma sourceConflict_None: "sourceConflict peers ty ns name = None \<longleftrightarrow> \<not> (\<exists>p \<in> set peers. readsAsSource ty ns name p)"
  using src.found_iff [of peers ty ns name] by (auto simp: sourceConflict_def split: option.splits)

lemma sourceConflict_is: "sourceConflict peers ty ns name = Some e \<Longrightarrow> errorsIs e errSyncConflict"
  by (auto simp: sourceConflict_def errSyncConflict_def split: option.splits)

text \<open>What remains to decide once the source check has passed.\<close>

definition copyCheck :: "namespaceSync list \<Rightarrow> string \<Rightarrow> string \<Rightarrow> string \<Rightarrow> string \<Rightarrow> bool \<Rightarrow> bool" where
  "copyCheck peers ty from' ns name explicit =
     (case copyOwner peers ty from' ns name of None \<Rightarrow> True
      | Some owner \<Rightarrow> explicit \<and> \<not> listsExplicitly ns owner)"

lemma copyCheck_iff:
  "copyCheck peers ty from' ns name explicit \<longleftrightarrow>
     \<not> (\<exists>p \<in> set peers. syncsInto ty from' ns name p) \<or>
     (explicit \<and> \<not> (\<exists>p \<in> set peers. syncsInto ty from' ns name p \<and> listsExplicitly ns p))"
proof (cases "copyOwner peers ty from' ns name")
  case None
  then show ?thesis using copy.found_iff [of peers ty from' ns name] by (simp add: copyCheck_def)
next
  case (Some owner)
  with copy.found_pref_iff [OF Some] copy.search_Some [OF Some] show ?thesis
    by (auto simp: copyCheck_def)
qed

lemma copyConflictGuard_None:
  "copyConflictGuard peers ty src explicit x = None \<longleftrightarrow>
     (let ns = getNamespace x; name = getName x;
          from' = mapIndex (getAnnotations x) AnnotationSourceNamespace in
      (isManagedCopy x src \<or> sourceConflict peers ty ns name = None) \<and>
      (if from' = [] then explicit else from' = src \<or> copyCheck peers ty from' ns name explicit))"
  by (auto simp: copyConflictGuard_def Let_def copyCheck_def listsExplicitly_def split: option.splits)

lemma copyConflictGuard_is:
  "copyConflictGuard peers ty src explicit x = Some e \<Longrightarrow> errorsIs e errSyncConflict"
  by (auto simp: copyConflictGuard_def Let_def errSyncConflict_def
      split: option.splits if_splits dest: sourceConflict_is)

lemma guard_iff_policy:
  "copyConflictGuard peers ty src explicit x = None \<longleftrightarrow> overwriteAllowed (set peers) ty src explicit x"
  unfolding copyConflictGuard_None overwriteAllowed_def Let_def sourceConflict_None copyCheck_iff ..

text \<open>The two checks together are the policy.\<close>

lemma mayWrite_None:
  "mayWrite peers ty src explicit ns name None \<longleftrightarrow> explicit \<or> \<not> (\<exists>p \<in> peers. readsAsSource ty ns name p)"
  by (auto simp: mayWrite_def defaultMayWrite_def explicitMayWrite_def)

lemma mayWrite_Some:
  assumes "src \<noteq> []" and "objKey x = (ns, name)"
  shows "mayWrite peers ty src explicit ns name (Some x) \<longleftrightarrow>
    (explicit \<or> \<not> (\<exists>p \<in> peers. readsAsSource ty ns name p)) \<and> overwriteAllowed peers ty src explicit x"
proof -
  have place: "getNamespace x = ns" "getName x = name" using assms(2) by (auto simp: objKey_def)
  have "isManagedCopy x src \<Longrightarrow> mapIndex (getAnnotations x) AnnotationSourceNamespace = src"
    by (simp add: isManagedCopy_def Let_def)
  then show ?thesis
    using assms(1) unfolding overwriteAllowed_def Let_def place mayWrite_def defaultMayWrite_def explicitMayWrite_def
      handMade_def madeFrom_def stillSyncs_def by auto
qed

text \<open>A copy \<open>n\<close> made.\<close>

definition copyOf :: "namespaceSync \<Rightarrow> obj \<Rightarrow> bool" where
  "copyOf n x \<longleftrightarrow> SourceNamespace (Spec n) \<noteq> [] \<and> isManagedCopy x (SourceNamespace (Spec n))"

lemma copyOf_from:
  "copyOf n x \<Longrightarrow> mapIndex (getAnnotations x) AnnotationSourceNamespace = SourceNamespace (Spec n)"
  by (auto simp: copyOf_def isManagedCopy_def Let_def)

lemma guard_on_copy:
  assumes "copyOf b x" and "SourceNamespace (Spec a) \<noteq> SourceNamespace (Spec b)" and "b \<in> set peers"
    and "syncsInto ty (SourceNamespace (Spec b)) (getNamespace x) (getName x) b"
    and "copyConflictGuard peers ty (SourceNamespace (Spec a)) explicit x = None"
  shows "explicit \<and> \<not> listsExplicitly (getNamespace x) b"
proof -
  have "overwriteAllowed (set peers) ty (SourceNamespace (Spec a)) explicit x"
    using assms(5) by (simp add: guard_iff_policy)
  with assms(1-4) copyOf_from [OF assms(1)] show ?thesis
    by (auto simp: overwriteAllowed_def Let_def copyOf_def)
qed

text \<open>
  C17. Two live NamespaceSyncs with different sources never take a copy from each other in turns: if
  the guard lets \<open>a\<close> overwrite the copy \<open>b\<close> made, then it does not let \<open>b\<close> overwrite the copy \<open>a\<close>
  made at the same place.
\<close>

theorem copies_not_taken_in_turns:
  assumes "SourceNamespace (Spec a) \<noteq> SourceNamespace (Spec b)"
    and "b \<in> set peersA" and "a \<in> set peersB"
    and "copyOf a xA" and "copyOf b xB" and "objKey xA = objKey xB"
    and "syncsInto ty (SourceNamespace (Spec a)) (getNamespace xA) (getName xA) a"
    and "syncsInto ty (SourceNamespace (Spec b)) (getNamespace xB) (getName xB) b"
    and "copyConflictGuard peersA ty (SourceNamespace (Spec a)) (contains (TargetNamespaces (Spec a)) (getNamespace xB)) xB = None"
  shows "copyConflictGuard peersB ty (SourceNamespace (Spec b)) (contains (TargetNamespaces (Spec b)) (getNamespace xA)) xA \<noteq> None"
proof
  assume refused: "copyConflictGuard peersB ty (SourceNamespace (Spec b))
    (contains (TargetNamespaces (Spec b)) (getNamespace xA)) xA = None"
  have "getNamespace xA = getNamespace xB" using assms(6) by (simp add: objKey_def)
  with guard_on_copy [OF assms(5,1,2,8,9)] guard_on_copy [OF assms(4) assms(1) [symmetric] assms(3,7) refused]
  show False by (simp add: listsExplicitly_def)
qed

definition copyAnnotations :: "string \<Rightarrow> string \<Rightarrow> gomap" where
  "copyAnnotations src name = Some (fmupd AnnotationSourceName name (fmupd AnnotationSourceNamespace src fmempty))"

lemma copyAnnotations_index [simp]:
  "mapIndex (copyAnnotations src name) AnnotationSourceNamespace = src"
  "mapIndex (copyAnnotations src name) AnnotationSourceName = name"
  by (simp_all add: copyAnnotations_def mapIndex_def)

theorem copies_not_taken_in_turns_witness:
  "copyConflictGuard [sampleSync ''a'' ''alpha'' [''team''] [''s'']] ''secret'' ''beta'' False
     (sampleSecret ''team'' ''s'' (copyAnnotations ''alpha'' ''s'')) \<noteq> None"
proof -
  define a where "a = sampleSync ''a'' ''alpha'' [''team''] [''s'']"
  define b where "b = sampleSync ''b'' ''beta'' [] [''s'']"
  define xA where "xA = sampleSecret ''team'' ''s'' (copyAnnotations ''alpha'' ''s'')"
  define xB where "xB = sampleSecret ''team'' ''s'' (copyAnnotations ''beta'' ''s'')"
  note d = a_def b_def xA_def xB_def
  have "copyConflictGuard [a] ''secret'' (SourceNamespace (Spec b))
      (contains (TargetNamespaces (Spec b)) (getNamespace xA)) xA \<noteq> None"
  proof (rule copies_not_taken_in_turns [where a = a and b = b and peersA = "[b]" and xA = xA and xB = xB])
    show "syncsInto ''secret'' (SourceNamespace (Spec a)) (getNamespace xA) (getName xA) a"
      "syncsInto ''secret'' (SourceNamespace (Spec b)) (getNamespace xB) (getName xB) b"
      by (simp_all add: d syncsInto_def syncsName_def targetsNamespace_iff systemNamespaces_def)
    show "copyOf a xA" "copyOf b xB"
      by (simp_all add: d copyOf_def isManagedCopy_def)
    show "copyConflictGuard [b] ''secret'' (SourceNamespace (Spec a))
        (contains (TargetNamespaces (Spec a)) (getNamespace xB)) xB = None"
      by (simp add: d guard_iff_policy overwriteAllowed_def Let_def readsAsSource_def syncsInto_def
          listsExplicitly_def)
  qed (simp_all add: d)
  then show ?thesis by (simp add: d)
qed

section \<open>Peers, cleanup names, messages\<close>

lemma peerLoop_filter:
  "peerLoop E self items = filter (\<lambda>p. syncKey p \<noteq> syncKey self \<and> timeIsZero E (deletionTimestamp (nsMeta p))) items"
  by (induction items) (auto simp: syncKey_def)

lemma unclaimed_filter:
  "unclaimed peers ty src ns names =
     filter (\<lambda>name. \<not> (\<exists>p \<in> set peers. syncsInto ty src ns name p \<or> readsAsSource ty ns name p)) names"
proof (induction names)
  case (Cons name names)
  then show ?case
    using copy.found_iff [of peers ty src ns name] src.found_iff [of peers ty ns name] by auto
qed simp

text \<open>
  C22. The names a deletion may clean up in a namespace are, in order, those no live peer needs there:
  neither as a copy it syncs from the same source nor as its own source object.
\<close>

theorem unclaimed_spec:
  "unclaimed peers ty src ns names =
     filter (\<lambda>name. \<not> (\<exists>p \<in> set peers. syncsInto ty src ns name p \<or> readsAsSource ty ns name p)) names"
  by (rule unclaimed_filter)

lemma peers_live:
  "listPeers E self s = (Inr peers, s') \<Longrightarrow>
     \<exists>items. doListSyncs E s = (Inr items, s') \<and>
       set peers = {p \<in> set items. syncKey p \<noteq> syncKey self \<and> timeIsZero E (deletionTimestamp (nsMeta p))}"
  by (auto simp: listPeers_def peerLoop_filter split: prod.splits sum.splits)

text \<open>
  The message put in \<open>status.failedNamespaces\<close> never contains a line break, and joining errors
  gives the messages, each on one line, separated by semicolons.
\<close>

lemma oneLine_joined:
  "newline \<notin> set (oneLine e) \<and>
   oneLine (ErrJoin es) = stringsJoin (map oneLine es) ''; ''"
proof
  show "newline \<notin> set (oneLine e)"
    by (simp add: oneLine_def replaceByte_absent newline_def)
  show "oneLine (ErrJoin es) = stringsJoin (map oneLine es) ''; ''"
    by (simp add: oneLine_def [abs_def] replaceByte_join comp_def)
qed

end
