(* ===== verification/MemServer.thy ===== *)
theory MemServer
  imports Samples
begin

text \<open>
  A concrete environment for the witnesses: an API server that keeps its objects in memory, checks
  resource versions and delete preconditions, and never fails otherwise, and the library functions
  as their documentation describes them. It shows that the hypotheses the properties put on the
  environment can hold; no property is about it.
\<close>

record mem =
  memObj :: "kind \<Rightarrow> key \<Rightarrow> obj option"
  memSyncs :: "namespaceSync list"
  memNamespaces :: "string list"
  memRev :: nat

definition memNotFound :: goerr where
  "memNotFound = ErrApi ''NotFound'' ''not found''"

definition memConflict :: goerr where
  "memConflict = ErrApi ''Conflict'' ''the object has been modified''"

definition memGet :: "kind \<Rightarrow> key \<Rightarrow> mem \<Rightarrow> (goerr + obj) \<times> mem" where
  "memGet k key w = ((case memObj w k key of
     None \<Rightarrow> Inl memNotFound
   | Some x \<Rightarrow> if objKind x = k \<and> objKey x = key then Inr x else Inl memNotFound), w)"

definition memPut :: "kind \<Rightarrow> key \<Rightarrow> obj option \<Rightarrow> mem \<Rightarrow> mem" where
  "memPut k key v w = w\<lparr>memObj := (memObj w)(k := (memObj w k)(key := v)), memRev := Suc (memRev w)\<rparr>"

definition stamped :: "mem \<Rightarrow> obj \<Rightarrow> obj" where
  "stamped w x = setMeta ((objMeta x)\<lparr>resourceVersion := digits (memRev w)\<rparr>) x"

definition memCreate :: "obj \<Rightarrow> mem \<Rightarrow> goerr option \<times> mem" where
  "memCreate x w = (case memObj w (objKind x) (objKey x) of
     Some y \<Rightarrow> (Some (ErrApi ''AlreadyExists'' ''already exists''), w)
   | None \<Rightarrow> (None, memPut (objKind x) (objKey x) (Some (stamped w x)) w))"

definition memUpdate :: "obj \<Rightarrow> mem \<Rightarrow> (goerr + obj) \<times> mem" where
  "memUpdate x w = (case memObj w (objKind x) (objKey x) of
     None \<Rightarrow> (Inl memNotFound, w)
   | Some y \<Rightarrow>
      (if resourceVersion (objMeta x) \<noteq> resourceVersion (objMeta y) then (Inl memConflict, w)
       else (Inr (stamped w x), memPut (objKind x) (objKey x) (Some (stamped w x)) w)))"

definition memDelete :: "obj \<Rightarrow> string \<Rightarrow> string \<Rightarrow> mem \<Rightarrow> goerr option \<times> mem" where
  "memDelete x uid rv w = (case memObj w (objKind x) (objKey x) of
     None \<Rightarrow> (Some memNotFound, w)
   | Some y \<Rightarrow>
      (if metaUID (objMeta y) \<noteq> uid \<or> resourceVersion (objMeta y) \<noteq> rv then (Some memConflict, w)
       else (None, memPut (objKind x) (objKey x) None w)))"

fun findSync :: "key \<Rightarrow> namespaceSync list \<Rightarrow> namespaceSync option" where
  "findSync key [] = None"
| "findSync key (n # ns) = (if syncKey n = key then Some n else findSync key ns)"

definition memGetSync :: "key \<Rightarrow> mem \<Rightarrow> (goerr + namespaceSync) \<times> mem" where
  "memGetSync key w = ((case findSync key (memSyncs w) of None \<Rightarrow> Inl memNotFound | Some n \<Rightarrow> Inr n), w)"

definition memUpdateSync :: "namespaceSync \<Rightarrow> mem \<Rightarrow> goerr option \<times> mem" where
  "memUpdateSync n w = (if findSync (syncKey n) (memSyncs w) = None then (Some memNotFound, w)
     else (None, w\<lparr>memSyncs := map (\<lambda>m. if syncKey m = syncKey n then n else m) (memSyncs w)\<rparr>))"

fun setCondition :: "condition list \<Rightarrow> condition \<Rightarrow> condition list" where
  "setCondition [] c = [c]"
| "setCondition (d # ds) c =
     (if condType d = condType c
      then c\<lparr>condLastTransitionTime :=
               (if condStatus d = condStatus c then condLastTransitionTime d else condLastTransitionTime c)\<rparr> # ds
      else d # setCondition ds c)"

fun retryN :: "nat \<Rightarrow> ('s \<Rightarrow> goerr option \<times> 's) \<Rightarrow> 's \<Rightarrow> goerr option \<times> 's" where
  "retryN 0 f s = f s"
| "retryN (Suc k) f s = (case f s of
     (Some e, s') \<Rightarrow> if e = memConflict then retryN k f s' else (Some e, s')
   | (None, s') \<Rightarrow> (None, s'))"

text \<open>\<open>Semantic.DeepEqual\<close> treats nil and empty maps as equal.\<close>

definition normMap :: "gomap \<Rightarrow> gomap" where
  "normMap m = Some (mapEntries m)"

definition normMeta :: "objectMeta \<Rightarrow> objectMeta" where
  "normMeta m = m\<lparr>labels := normMap (labels m), annotations := normMap (annotations m)\<rparr>"

fun normObj :: "obj \<Rightarrow> obj" where
  "normObj (ObjSecret x) = ObjSecret (x\<lparr>secMeta := normMeta (secMeta x), secData := normMap (secData x),
     secStringData := normMap (secStringData x)\<rparr>)"
| "normObj (ObjConfigMap x) = ObjConfigMap (x\<lparr>cmMeta := normMeta (cmMeta x), cmData := normMap (cmData x),
     cmBinaryData := normMap (cmBinaryData x)\<rparr>)"

definition memEnv :: "mem env" where
  "memEnv = \<lparr>cl_get = memGet, cl_create = memCreate, cl_update = memUpdate, cl_delete = memDelete,
     cl_list_namespaces = (\<lambda>w. (Inr (remdups (memNamespaces w)), w)), cl_list_syncs = (\<lambda>w. (Inr (memSyncs w), w)),
     cl_get_sync = memGetSync, cl_update_sync = memUpdateSync, cl_update_status = memUpdateSync,
     apiReader = Some memGet, hasRecorder = True, clock = (\<lambda>w. (sampleTime, w)),
     isNotFound = (\<lambda>e. e = memNotFound), semDeepEqual = (\<lambda>a b. normObj a = normObj b),
     containsFinalizer = (\<lambda>n f. f \<in> set (finalizers (nsMeta n))),
     addFinalizer = (\<lambda>n f. n\<lparr>nsMeta := (nsMeta n)\<lparr>finalizers := finalizers (nsMeta n) @ [f]\<rparr>\<rparr>),
     removeFinalizer = (\<lambda>n f. n\<lparr>nsMeta := (nsMeta n)\<lparr>finalizers := removeAll f (finalizers (nsMeta n))\<rparr>\<rparr>),
     setStatusCondition = setCondition, timeIsZero = (\<lambda>t. t = None),
     terminalError = (\<lambda>e. ErrWrap (''terminal error: '' @ errorMsg e) e),
     retryOnConflict = retryN 4, unicodePrint = (\<lambda>r. True)\<rparr>"

definition memStart :: "mem \<Rightarrow> mem st" where
  "memStart w = \<lparr>world = w, counters = (\<lambda>_ _ _. 0), durations = [], managed = (\<lambda>_ _. 0),
     events = [], calls = []\<rparr>"

definition emptyMem :: mem where
  "emptyMem = \<lparr>memObj = (\<lambda>_ _. None), memSyncs = [], memNamespaces = [], memRev = 1\<rparr>"

lemma memEnv_simps [simp]:
  "cl_get memEnv = memGet" "cl_create memEnv = memCreate" "cl_update memEnv = memUpdate"
  "cl_delete memEnv = memDelete" "cl_list_namespaces memEnv = (\<lambda>w. (Inr (remdups (memNamespaces w)), w))"
  "cl_list_syncs memEnv = (\<lambda>w. (Inr (memSyncs w), w))" "cl_get_sync memEnv = memGetSync"
  "cl_update_sync memEnv = memUpdateSync" "cl_update_status memEnv = memUpdateSync"
  "apiReader memEnv = Some memGet" "hasRecorder memEnv" "clock memEnv = (\<lambda>w. (sampleTime, w))"
  "isNotFound memEnv = (\<lambda>e. e = memNotFound)" "semDeepEqual memEnv = (\<lambda>a b. normObj a = normObj b)"
  "containsFinalizer memEnv = (\<lambda>n f. f \<in> set (finalizers (nsMeta n)))"
  "addFinalizer memEnv = (\<lambda>n f. n\<lparr>nsMeta := (nsMeta n)\<lparr>finalizers := finalizers (nsMeta n) @ [f]\<rparr>\<rparr>)"
  "removeFinalizer memEnv = (\<lambda>n f. n\<lparr>nsMeta := (nsMeta n)\<lparr>finalizers := removeAll f (finalizers (nsMeta n))\<rparr>\<rparr>)"
  "setStatusCondition memEnv = setCondition" "timeIsZero memEnv = (\<lambda>t. t = None)"
  "terminalError memEnv = (\<lambda>e. ErrWrap (''terminal error: '' @ errorMsg e) e)"
  "retryOnConflict memEnv = retryN 4" "unicodePrint memEnv = (\<lambda>r. True)"
  by (simp_all add: memEnv_def)

end
