(* ===== verification/Resources.thy ===== *)
theory Resources
  imports Conflicts MemServer
begin

text \<open>
  \<^verbatim>\<open>internal/controller/resources.go\<close>: building the metadata of a copy, creating or updating an object
  behind a guard, deleting copies and the cleanup a deleted NamespaceSync runs. An operation takes the
  environment, its Go arguments and the state, and returns its Go results and the state.
\<close>

section \<open>Metadata of a copy\<close>

definition isSourceOnlyKey :: "string \<Rightarrow> bool" where
  "isSourceOnlyKey key = (hasPrefix key ''kubernetes.io/'' \<or> hasPrefix key ''kubectl.kubernetes.io/'')"

text \<open>The body of \<^verbatim>\<open>for k, v := range src\<close>, over the entries in the order visited.\<close>

fun copyKeys :: "(string \<times> string) list \<Rightarrow> (string, string) fmap \<Rightarrow> (string, string) fmap" where
  "copyKeys [] dst = dst"
| "copyKeys ((k, v) # es) dst = copyKeys es (if \<not> isSourceOnlyKey k then fmupd k v dst else dst)"

definition copyLabelsAndAnnotations :: "'w env \<Rightarrow> objectMeta \<Rightarrow> objectMeta \<Rightarrow> 'w st \<Rightarrow> objectMeta \<times> 'w st" where
  "copyLabelsAndAnnotations E src dst s =
     (let l = (case labels dst of None \<Rightarrow> fmempty | Some m \<Rightarrow> m);
          a = (case annotations dst of None \<Rightarrow> fmempty | Some m \<Rightarrow> m);
          l = copyKeys (mapRange (labels src)) l;
          a = copyKeys (mapRange (annotations src)) a;
          a = fmupd AnnotationSourceNamespace (metaNamespace src) a;
          a = fmupd AnnotationSourceName (metaName src) a;
          (now, s) = timeNow E s;
          a = fmupd AnnotationLastSync (rfc3339 now) a
      in (dst\<lparr>labels := Some l, annotations := Some a\<rparr>, s))"

definition equalIgnoringLabelsAndAnnotations :: "'w env \<Rightarrow> obj \<Rightarrow> obj \<Rightarrow> bool" where
  "equalIgnoringLabelsAndAnnotations E a b =
     semDeepEqual E (setAnnotations None (setLabels None a)) (setAnnotations None (setLabels None b))"

definition keepLastSync :: "'w env \<Rightarrow> obj \<Rightarrow> obj \<Rightarrow> obj" where
  "keepLastSync E prior after =
     (case mapLookup (getAnnotations prior) AnnotationLastSync of
        None \<Rightarrow> after
      | Some stamp \<Rightarrow>
         (if \<not> equalIgnoringLabelsAndAnnotations E prior after then after
          else let a = (case getAnnotations after of None \<Rightarrow> fmempty | Some m \<Rightarrow> m)
               in setAnnotations (Some (fmupd AnnotationLastSync stamp a)) after))"

section \<open>Create or update\<close>

definition createOrUpdateResource ::
    "'w env \<Rightarrow> obj \<Rightarrow> string \<Rightarrow> (obj \<Rightarrow> goerr option) \<Rightarrow> (obj \<Rightarrow> obj \<Rightarrow> obj) \<Rightarrow> 'w st \<Rightarrow> goerr option \<times> 'w st" where
  "createOrUpdateResource E desired ty guard updateFields s =
     (case doGet E (objKind desired) (objKey desired) s of
        (Inl err, s) \<Rightarrow>
          (if isNotFound E err then
             (case doCreate E desired s of
                (Some err, s) \<Rightarrow> (Some err, recordSyncFailure (getNamespace desired) ty s)
              | (None, s) \<Rightarrow> (None, recordSyncSuccess (getNamespace desired) ty s))
           else (Some err, s))
      | (Inr existing, s) \<Rightarrow>
          (case guard existing of
             Some err \<Rightarrow>
               (if errorsIs err errSyncConflict then (Some err, recordSyncConflict (getNamespace desired) ty s)
                else (Some err, recordSyncFailure (getNamespace desired) ty s))
           | None \<Rightarrow>
               (let prior = existing;
                    existing = updateFields desired existing;
                    existing = keepLastSync E prior existing in
                if semDeepEqual E prior existing
                then (None, recordSyncSuccess (getNamespace desired) ty s)
                else (case doUpdate E existing s of
                        (Inl err, s) \<Rightarrow> (Some err, recordSyncFailure (getNamespace desired) ty s)
                      | (Inr updated, s) \<Rightarrow> (None, recordSyncSuccess (getNamespace desired) ty s)))))"

section \<open>Deleting copies\<close>

definition uncachedGet :: "'w env \<Rightarrow> kind \<Rightarrow> key \<Rightarrow> 'w st \<Rightarrow> (goerr + obj) \<times> 'w st" where
  "uncachedGet E k key = (case apiReader E of
     Some f \<Rightarrow> perform (f k key) (CRead k key)
   | None \<Rightarrow> doGet E k key)"

definition deleteManagedCopy :: "'w env \<Rightarrow> obj \<Rightarrow> string \<Rightarrow> 'w st \<Rightarrow> (goerr + bool) \<times> 'w st" where
  "deleteManagedCopy E stub sourceNamespace s =
     (let key = objKey stub in
      case uncachedGet E (objKind stub) key s of
        (Inl err, s) \<Rightarrow>
          (if isNotFound E err then (Inr False, s)
           else (Inl (wrapBack (''get '' @ showKey (fst key) (snd key)) err), s))
      | (Inr x, s) \<Rightarrow>
          (if \<not> isManagedCopy x sourceNamespace then (Inr False, s)
           else (case doDelete E x (metaUID (objMeta x)) (resourceVersion (objMeta x)) s of
                   (Some err, s) \<Rightarrow>
                     (if isNotFound E err then (Inr False, s)
                      else (Inl (wrapBack (''delete '' @ showKey (fst key) (snd key)) err), s))
                 | (None, s) \<Rightarrow> (Inr True, s))))"

fun cleanupResource :: "'w env \<Rightarrow> string \<Rightarrow> string \<Rightarrow> string list \<Rightarrow> string \<Rightarrow> (string \<Rightarrow> string \<Rightarrow> obj) \<Rightarrow> 'w st \<Rightarrow>
    goerr list \<times> 'w st" where
  "cleanupResource E src ns [] ty newObj s = ([], s)"
| "cleanupResource E src ns (name # names) ty newObj s =
     (case deleteManagedCopy E (newObj name ns) src s of
        (Inl err, s) \<Rightarrow>
          (let (errs, s) = cleanupResource E src ns names ty newObj (recordCleanupFailure ns ty s)
           in (err # errs, s))
      | (Inr deleted, s) \<Rightarrow>
          cleanupResource E src ns names ty newObj (if deleted then recordCleanupSuccess ns ty s else s))"

text \<open>The typed stubs the callers build.\<close>

definition secretStub :: "string \<Rightarrow> string \<Rightarrow> obj" where
  "secretStub name ns = ObjSecret \<lparr>secMeta = emptyMeta\<lparr>metaName := name, metaNamespace := ns\<rparr>,
     secImmutable = None, secData = None, secStringData = None, secType = []\<rparr>"

definition configMapStub :: "string \<Rightarrow> string \<Rightarrow> obj" where
  "configMapStub name ns = ObjConfigMap \<lparr>cmMeta = emptyMeta\<lparr>metaName := name, metaNamespace := ns\<rparr>,
     cmImmutable = None, cmData = None, cmBinaryData = None\<rparr>"

fun cleanupLoop :: "'w env \<Rightarrow> namespaceSync \<Rightarrow> namespaceSync list \<Rightarrow> string list \<Rightarrow> 'w st \<Rightarrow> goerr list \<times> 'w st" where
  "cleanupLoop E n peers [] s = ([], s)"
| "cleanupLoop E n peers (ns # nss) s =
     (if \<not> shouldSyncToNamespace ns n then cleanupLoop E n peers nss s
      else
        (let source = SourceNamespace (Spec n);
             (errs1, s) = cleanupResource E source ns
               (unclaimed peers ''secret'' source ns (SecretName (Spec n))) ''secret'' secretStub s;
             (errs2, s) = cleanupResource E source ns
               (unclaimed peers ''configmap'' source ns (ConfigMapName (Spec n))) ''configmap'' configMapStub s;
             (errs3, s) = cleanupLoop E n peers nss s
         in (errs1 @ errs2 @ errs3, s)))"

definition cleanupSyncedResources :: "'w env \<Rightarrow> namespaceSync \<Rightarrow> 'w st \<Rightarrow> goerr option \<times> 'w st" where
  "cleanupSyncedResources E n s =
     (case doListNamespaces E s of
        (Inl err, s) \<Rightarrow> (Some err, s)
      | (Inr nss, s) \<Rightarrow>
          (case listPeers E n s of
             (Inl err, s) \<Rightarrow> (Some err, s)
           | (Inr peers, s) \<Rightarrow>
               (let (errs, s) = cleanupLoop E n peers nss s in (errorsJoin errs, s))))"

section \<open>Deletion of a NamespaceSync\<close>

text \<open>\<open>ctrl.Result\<close>: the requeue delay in nanoseconds, 0 for none.\<close>

definition handleDeletionAndStatus :: "'w env \<Rightarrow> namespaceSync \<Rightarrow> 'w st \<Rightarrow> (int \<times> goerr option) \<times> 'w st" where
  "handleDeletionAndStatus E n s =
     (if containsFinalizer E n finalizerName then
        (case cleanupSyncedResources E n s of
           (Some err, s) \<Rightarrow>
             ((0, Some err), recordEvent E n EventTypeWarning ''CleanupFailed''
                (''Failed to clean up synced resources: '' @ errorMsg err) s)
         | (None, s) \<Rightarrow>
             (let s = recordEvent E n EventTypeNormal ''CleanupComplete''
                        ''Successfully cleaned up synced resources'' s;
                  n = removeFinalizer E n finalizerName in
              case doUpdateSync E n s of
                (Some err, s) \<Rightarrow> if isNotFound E err then ((0, None), s) else ((0, Some err), s)
              | (None, s) \<Rightarrow> ((0, None), s)))
      else ((0, None), s))"

section \<open>What the metadata of a copy says\<close>

lemma copyKeys_lookup:
  "distinct (map fst es) \<Longrightarrow>
     fmlookup (copyKeys es m) k =
       (case map_of es k of Some v \<Rightarrow> if isSourceOnlyKey k then fmlookup m k else Some v
        | None \<Rightarrow> fmlookup m k)"
  by (induction es m rule: copyKeys.induct) (auto split: option.splits dest: map_of_SomeD simp: rev_image_eqI)

lemma copyKeys_mapRange:
  "fmlookup (copyKeys (mapRange x) m) k =
     (case mapLookup x k of Some v \<Rightarrow> if isSourceOnlyKey k then fmlookup m k else Some v
      | None \<Rightarrow> fmlookup m k)"
  by (simp add: copyKeys_lookup mapRange_distinct mapLookup_entries)

text \<open>
  The order in which Go visits the entries of a map does not matter: any two enumerations of the same map,
  each without repeated keys, are copied to the same result.
\<close>

lemma copyKeys_order_irrelevant:
  assumes "distinct (map fst es)" and "distinct (map fst es')" and "map_of es = map_of es'"
  shows "copyKeys es m = copyKeys es' m"
  by (rule fmap_ext) (simp add: copyKeys_lookup assms(1,2), simp add: assms(3))

text \<open>The three annotations every copy carries.\<close>

definition stampKeys :: "string set" where
  "stampKeys = {AnnotationSourceNamespace, AnnotationSourceName, AnnotationLastSync}"

lemma copyLabelsAndAnnotations_labels:
  "mapLookup (labels (fst (copyLabelsAndAnnotations E src dst s))) k =
     (case mapLookup (labels src) k of Some v \<Rightarrow> if isSourceOnlyKey k then mapLookup (labels dst) k else Some v
      | None \<Rightarrow> mapLookup (labels dst) k)"
  by (cases "labels dst")
    (auto simp: copyLabelsAndAnnotations_def Let_def copyKeys_mapRange split: prod.splits option.splits)

lemma copyLabelsAndAnnotations_annotations:
  "mapLookup (annotations (fst (copyLabelsAndAnnotations E src dst s))) k =
     (if k = AnnotationLastSync then Some (rfc3339 (fst (timeNow E s)))
      else if k = AnnotationSourceName then Some (metaName src)
      else if k = AnnotationSourceNamespace then Some (metaNamespace src)
      else case mapLookup (annotations src) k of
        Some v \<Rightarrow> if isSourceOnlyKey k then mapLookup (annotations dst) k else Some v
      | None \<Rightarrow> mapLookup (annotations dst) k)"
  by (cases "annotations dst")
    (auto simp: copyLabelsAndAnnotations_def Let_def copyKeys_mapRange split: prod.splits option.splits)

lemma copyLabelsAndAnnotations_frame [meta_simps]:
  "metaName (fst (copyLabelsAndAnnotations E src dst s)) = metaName dst"
  "metaNamespace (fst (copyLabelsAndAnnotations E src dst s)) = metaNamespace dst"
  "calls (snd (copyLabelsAndAnnotations E src dst s)) = calls s"
  "snd (copyLabelsAndAnnotations E src dst s) = snd (timeNow E s)"
  by (simp_all add: copyLabelsAndAnnotations_def Let_def split: prod.splits)
    (metis snd_conv timeNow_frame(1))

text \<open>
  C31. Written into a fresh copy, the metadata is exactly the source's without the keys that describe
  the source itself, except that the three tracking annotations say where and when the copy came from.
\<close>

theorem copyLabelsAndAnnotations_spec:
  "let m = fst (copyLabelsAndAnnotations E src (dst\<lparr>labels := None, annotations := None\<rparr>) s) in
   mapLookup (labels m) k = (if isSourceOnlyKey k then None else mapLookup (labels src) k) \<and>
   mapLookup (annotations m) k =
      (if k = AnnotationSourceNamespace then Some (metaNamespace src)
       else if k = AnnotationSourceName then Some (metaName src)
       else if k = AnnotationLastSync then Some (rfc3339 (fst (timeNow E s)))
       else if isSourceOnlyKey k then None else mapLookup (annotations src) k)"
  by (auto simp: Let_def copyLabelsAndAnnotations_labels copyLabelsAndAnnotations_annotations
      split: option.splits)

section \<open>The calls of each operation\<close>

text \<open>A read, list or delete that failed for another reason than the object being gone.\<close>

fun callFailed :: "'w env \<Rightarrow> call \<Rightarrow> bool" where
  "callFailed E (CGet k key (Inl e)) = (\<not> isNotFound E e)"
| "callFailed E (CRead k key (Inl e)) = (\<not> isNotFound E e)"
| "callFailed E (CDelete x uid rv (Some e)) = (\<not> isNotFound E e)"
| "callFailed E (CListNamespaces (Inl e)) = True"
| "callFailed E (CListSyncs (Inl e)) = True"
| "callFailed E _ = False"

text \<open>The errors the operations return for the results of their calls.\<close>

definition readError :: "'w env \<Rightarrow> key \<Rightarrow> goerr + obj \<Rightarrow> goerr option" where
  "readError E key q = (case q of
     Inl err \<Rightarrow> if isNotFound E err then None else Some (wrapBack (''get '' @ showKey (fst key) (snd key)) err)
   | Inr y \<Rightarrow> None)"

definition deleteError :: "'w env \<Rightarrow> key \<Rightarrow> goerr option \<Rightarrow> goerr option" where
  "deleteError E key q = (case q of
     None \<Rightarrow> None
   | Some err \<Rightarrow> if isNotFound E err then None else Some (wrapBack (''delete '' @ showKey (fst key) (snd key)) err))"

definition updateError :: "goerr + obj \<Rightarrow> goerr option" where
  "updateError q = (case q of Inl err \<Rightarrow> Some err | Inr y \<Rightarrow> None)"

lemma updateError_None: "updateError q = None \<longleftrightarrow> (\<exists>y. q = Inr y)"
  by (simp add: updateError_def split: sum.split)

lemma readError_failed:
  "rd = CGet k key q \<or> rd = CRead k key q \<Longrightarrow> readError E key' q \<noteq> None \<longleftrightarrow> callFailed E rd"
  by (auto simp: readError_def split: sum.split)

lemma deleteError_failed: "deleteError E key q \<noteq> None \<longleftrightarrow> callFailed E (CDelete y uid rv q)"
  by (simp add: deleteError_def split: option.split)

lemma deleteManagedCopy_cases:
  assumes "deleteManagedCopy E stub src s = (r, s')"
  obtains
    (kept) rd q where "calls s' = calls s @ [rd]"
      and "rd = CGet (objKind stub) (objKey stub) q \<or> rd = CRead (objKind stub) (objKey stub) q"
      and "r \<noteq> Inr True" and "(\<exists>e. r = Inl e) \<longleftrightarrow> callFailed E rd"
      and "\<forall>x. q = Inr x \<longrightarrow> \<not> isManagedCopy x src"
      and "(case r of Inl err \<Rightarrow> Some err | Inr _ \<Rightarrow> None) = readError E (objKey stub) q"
  | (deleted) x e rd where "calls s' = calls s @ [rd, CDelete x (metaUID (objMeta x)) (resourceVersion (objMeta x)) e]"
      and "rd = CGet (objKind stub) (objKey stub) (Inr x) \<or> rd = CRead (objKind stub) (objKey stub) (Inr x)"
      and "isManagedCopy x src" and "r = Inr True \<longleftrightarrow> e = None"
      and "(\<exists>e. r = Inl e) \<longleftrightarrow> callFailed E (CDelete x (metaUID (objMeta x)) (resourceVersion (objMeta x)) e)"
      and "fst (uncachedGet E (objKind stub) (objKey stub) s) = Inr x"
      and "(case r of Inl err \<Rightarrow> Some err | Inr _ \<Rightarrow> None) = deleteError E (objKey stub) e"
proof -
  obtain q t where g: "uncachedGet E (objKind stub) (objKey stub) s = (q, t)" by (metis surj_pair)
  define rd where "rd = (case apiReader E of Some f \<Rightarrow> CRead | None \<Rightarrow> CGet) (objKind stub) (objKey stub) q"
  have t: "calls t = calls s @ [rd]"
    using g by (auto simp: uncachedGet_def doGet_def rd_def split: option.splits dest: perform_result)
  show thesis
  proof (cases "\<exists>x. q = Inr x \<and> isManagedCopy x src")
    case True
    then obtain x where x: "q = Inr x" "isManagedCopy x src" by blast
    obtain e u where d: "doDelete E x (metaUID (objMeta x)) (resourceVersion (objMeta x)) t = (e, u)"
      by (metis surj_pair)
    have u: "calls u = calls s @ [rd, CDelete x (metaUID (objMeta x)) (resourceVersion (objMeta x)) e]"
      using d t by (auto simp: doDelete_def dest: perform_result)
    have "s' = u" "r = Inr True \<longleftrightarrow> e = None"
      "(case r of Inl err \<Rightarrow> Some err | Inr _ \<Rightarrow> None) = deleteError E (objKey stub) e"
      "(\<exists>e. r = Inl e) \<longleftrightarrow> callFailed E (CDelete x (metaUID (objMeta x)) (resourceVersion (objMeta x)) e)"
      using assms g x d by (auto simp: deleteManagedCopy_def deleteError_def Let_def split: option.splits if_splits)
    with u x g show thesis by (intro deleted) (auto simp: rd_def split: option.splits)
  next
    case False
    then have "s' = t" "r \<noteq> Inr True" "(\<exists>e. r = Inl e) \<longleftrightarrow> callFailed E rd"
      "(case r of Inl err \<Rightarrow> Some err | Inr _ \<Rightarrow> None) = readError E (objKey stub) q"
      unfolding rd_def using assms g by (auto simp: deleteManagedCopy_def readError_def Let_def split: sum.splits if_splits option.splits)
    with t False show thesis by (intro kept) (auto simp: rd_def split: option.splits)
  qed
qed

lemma createOrUpdateResource_cases:
  assumes "createOrUpdateResource E desired ty guard upd s = (r, s')"
  obtains
    (unread) e where "calls s' = calls s @ [CGet (objKind desired) (objKey desired) (Inl e)]"
      and "\<not> isNotFound E e" and "r = Some e" and "counters s' = counters s"
  | (created) e q where "calls s' = calls s @ [CGet (objKind desired) (objKey desired) (Inl e), CCreate desired q]"
      and "isNotFound E e" and "r = q"
  | (refused) x e where "calls s' = calls s @ [CGet (objKind desired) (objKey desired) (Inr x)]"
      and "guard x = Some e" and "r = Some e" and "fst (doGet E (objKind desired) (objKey desired) s) = Inr x"
  | (in_sync) x where "calls s' = calls s @ [CGet (objKind desired) (objKey desired) (Inr x)]"
      and "guard x = None" and "semDeepEqual E x (keepLastSync E x (upd desired x))" and "r = None"
      and "fst (doGet E (objKind desired) (objKey desired) s) = Inr x"
  | (updated) x q where "calls s' = calls s @ [CGet (objKind desired) (objKey desired) (Inr x),
        CUpdate (keepLastSync E x (upd desired x)) q]"
      and "guard x = None" and "\<not> semDeepEqual E x (keepLastSync E x (upd desired x))"
      and "r = updateError q"
      and "fst (doGet E (objKind desired) (objKey desired) s) = Inr x"
proof -
  obtain q t where g: "doGet E (objKind desired) (objKey desired) s = (q, t)" by (metis surj_pair)
  have t: "calls t = calls s @ [CGet (objKind desired) (objKey desired) q]"
    using g by (auto simp: doGet_def dest: perform_result)
  have c: "counters t = counters s"
    using g perform_frame(1) [of "cl_get E (objKind desired) (objKey desired)"
        "CGet (objKind desired) (objKey desired)" s] by (simp add: doGet_def)
  note unfold = assms [unfolded createOrUpdateResource_def g Let_def]
  show thesis
  proof (cases q)
    case (Inl e)
    show thesis
    proof (cases "isNotFound E e")
      case True
      obtain p u where "doCreate E desired t = (p, u)" by (metis surj_pair)
      moreover from this have "calls u = calls t @ [CCreate desired p]"
        by (auto simp: doCreate_def dest: perform_result)
      ultimately show thesis using unfold Inl True t by (intro created) (auto split: option.splits)
    next
      case False
      with unfold Inl t c show thesis by (intro unread) auto
    qed
  next
    case (Inr x)
    let ?y = "keepLastSync E x (upd desired x)"
    show thesis
    proof (cases "guard x")
      case (Some e)
      with unfold Inr t g show thesis by (intro refused) (auto split: if_splits)
    next
      case None
      show thesis
      proof (cases "semDeepEqual E x ?y")
        case True
        with unfold Inr None t g show thesis by (intro in_sync) auto
      next
        case False
        obtain p u where "doUpdate E ?y t = (p, u)" by (metis surj_pair)
        moreover from this have "calls u = calls t @ [CUpdate ?y p]"
          by (auto simp: doUpdate_def dest: perform_result)
        ultimately show thesis using unfold Inr None False t g by (intro updated [of x p]) (auto simp: updateError_def split: sum.splits)
      qed
    qed
  qed
qed

section \<open>Metrics\<close>

text \<open>
  C30. Creating or updating a resource counts it exactly once, in the target namespace: as a success if
  and only if it returns no error, as a conflict if the guard refused the object it found with a sync
  conflict, as a failure otherwise; except that when the object cannot be read (for another reason than
  not existing) nothing is counted.
\<close>

theorem createOrUpdate_counts_once:
  "case createOrUpdateResource E desired ty guard upd s of (r, s') \<Rightarrow>
     (case fst (doGet E (objKind desired) (objKey desired) s) of
        Inl e \<Rightarrow>
          (if isNotFound E e
           then counters s' = counters (incCounter (if r = None then SyncSuccess else SyncFailure) (getNamespace desired) ty s)
           else r = Some e \<and> counters s' = counters s)
      | Inr x \<Rightarrow>
          counters s' = counters (incCounter
            (case guard x of
               Some err \<Rightarrow> if errorsIs err errSyncConflict then SyncConflict else SyncFailure
             | None \<Rightarrow> if r = None then SyncSuccess else SyncFailure) (getNamespace desired) ty s))"
proof -
  have frame: "counters (snd (doGet E k key s)) = counters s" "counters (snd (doCreate E x s)) = counters s"
    "counters (snd (doUpdate E x s)) = counters s" for k key x and s :: "'a st"
    by (simp_all add: doGet_def doCreate_def doUpdate_def)
  have inc: "counters (incCounter c ns ty s) = counters (incCounter c ns ty s')" if "counters s = counters s'"
    for c ns ty and s s' :: "'a st"
    using that by (simp add: incCounter_def)
  show ?thesis
    by (auto simp: createOrUpdateResource_def Let_def record_defs split: prod.splits sum.splits option.splits)
      (metis frame inc fst_conv snd_conv)+
qed

end
