(* ===== verification/Cleanup.thy ===== *)
theory Cleanup
  imports Resources
begin

text \<open>
  The deletion of a NamespaceSync, \<^verbatim>\<open>cleanupSyncedResources\<close> and \<^verbatim>\<open>handleDeletionAndStatus\<close> of
  \<^verbatim>\<open>resources.go\<close>: what the cleanup may delete, that it leaves nothing it should delete, and when the
  finalizer is removed.
\<close>

section \<open>Deletion protocol\<close>

text \<open>
  Every delete directly follows the read of the object it deletes, the object read was a copy from
  \<open>src\<close>, at a place \<open>P\<close> allows, and the delete carries that object's UID and resource version as preconditions.
\<close>

fun isDelete :: "call \<Rightarrow> bool" where
  "isDelete (CDelete x uid rv e) = True"
| "isDelete _ = False"

fun deleteOK :: "(kind \<Rightarrow> key \<Rightarrow> bool) \<Rightarrow> string \<Rightarrow> call \<Rightarrow> call \<Rightarrow> bool" where
  "deleteOK P src c (CDelete x uid rv e) =
     (isManagedCopy x src \<and> uid = metaUID (objMeta x) \<and> rv = resourceVersion (objMeta x) \<and>
      (\<exists>k key. P k key \<and> (c = CGet k key (Inr x) \<or> c = CRead k key (Inr x))))"
| "deleteOK P src c d = False"

definition deletesGuarded :: "(kind \<Rightarrow> key \<Rightarrow> bool) \<Rightarrow> string \<Rightarrow> call list \<Rightarrow> bool" where
  "deletesGuarded P src = precededBy isDelete (deleteOK P src)"

interpretation del: call_protocol "deletesGuarded P src"
  unfolding deletesGuarded_def by (rule prec.call_protocol_axioms)

lemma deletesGuarded_none: "list_all (\<lambda>c. \<not> isDelete c) cs \<Longrightarrow> deletesGuarded P src cs"
  by (simp add: deletesGuarded_def precededBy_none)

lemma deletesGuarded_pair:
  "isManagedCopy x src \<Longrightarrow> P k key \<Longrightarrow> rd = CGet k key (Inr x) \<or> rd = CRead k key (Inr x) \<Longrightarrow>
     deletesGuarded P src [rd, CDelete x (metaUID (objMeta x)) (resourceVersion (objMeta x)) e]"
  unfolding deletesGuarded_def by (cases key) (rule precededBy_pair; auto)

lemma deleteManagedCopy_guarded:
  assumes "P (objKind stub) (objKey stub)"
  shows "extBy (deletesGuarded P src) s (snd (deleteManagedCopy E stub src s))"
proof -
  obtain r s' where d: "deleteManagedCopy E stub src s = (r, s')" by (metis surj_pair)
  from d have "extBy (deletesGuarded P src) s s'"
  proof (cases rule: deleteManagedCopy_cases)
    case (kept rd)
    then show ?thesis
      by (intro extByI [of _ _ "[rd]"] deletesGuarded_none) (cases rd; simp)+
  next
    case (deleted x e rd)
    show ?thesis by (rule extByI [where Q = "deletesGuarded P src", OF deleted(1) deletesGuarded_pair [where P = P, OF deleted(3) assms deleted(2)]])
  qed
  with d show ?thesis by simp
qed

section \<open>The loops, over any protocol\<close>

context call_protocol
begin

lemma cleanupResource_ext:
  assumes "\<And>name s. name \<in> set names \<Longrightarrow> extBy Q s (snd (deleteManagedCopy E (newObj name ns) src s))"
  shows "extBy Q s (snd (cleanupResource E src ns names ty newObj s))"
  using assms
proof (induction names arbitrary: s)
  case Nil
  then show ?case by (simp add: step_refl)
next
  case (Cons name names)
  obtain r t where d: "deleteManagedCopy E (newObj name ns) src s = (r, t)" by (metis surj_pair)
  have t: "extBy Q s t" using Cons.prems [of name s] d by simp
  have rest: "extBy Q u (snd (cleanupResource E src ns names ty newObj u))" for u
    using Cons by simp
  have "extBy Q t (snd (cleanupResource E src ns names ty newObj u))" if "calls u = calls t" for u
    using rest [of u] that extBy_frame(2) by blast
  with t d show ?case
    by (auto split: sum.splits prod.splits intro: step_trans) (metis record_frame(7,9) snd_conv step_trans)+
qed

lemma cleanupLoop_ext:
  assumes "\<And>ns name s. ns \<in> set nss \<Longrightarrow> targetsNamespace ns n \<Longrightarrow>
      name \<in> set (unclaimed peers ''secret'' (SourceNamespace (Spec n)) ns (SecretName (Spec n))) \<Longrightarrow>
      extBy Q s (snd (deleteManagedCopy E (secretStub name ns) (SourceNamespace (Spec n)) s))"
    and "\<And>ns name s. ns \<in> set nss \<Longrightarrow> targetsNamespace ns n \<Longrightarrow>
      name \<in> set (unclaimed peers ''configmap'' (SourceNamespace (Spec n)) ns (ConfigMapName (Spec n))) \<Longrightarrow>
      extBy Q s (snd (deleteManagedCopy E (configMapStub name ns) (SourceNamespace (Spec n)) s))"
  shows "extBy Q s (snd (cleanupLoop E n peers nss s))"
  using assms
proof (induction nss arbitrary: s)
  case Nil
  then show ?case by (simp add: step_refl)
next
  case (Cons ns nss)
  have rest: "extBy Q u (snd (cleanupLoop E n peers nss u))" for u using Cons by simp
  show ?case
  proof (cases "targetsNamespace ns n")
    case False
    with rest show ?thesis by simp
  next
    case True
    let ?src = "SourceNamespace (Spec n)"
    let ?sec = "cleanupResource E ?src ns (unclaimed peers ''secret'' ?src ns (SecretName (Spec n))) ''secret'' secretStub"
    let ?cm = "cleanupResource E ?src ns (unclaimed peers ''configmap'' ?src ns (ConfigMapName (Spec n))) ''configmap'' configMapStub"
    have sec: "extBy Q u (snd (?sec u))" for u
      using True Cons.prems(1) by (intro cleanupResource_ext) auto
    have cm: "extBy Q u (snd (?cm u))" for u
      using True Cons.prems(2) by (intro cleanupResource_ext) auto
    have "extBy Q s (snd (cleanupLoop E n peers nss (snd (?cm (snd (?sec s))))))"
      by (rule step_trans [OF sec step_trans [OF cm rest]])
    then show ?thesis using True by (simp add: Let_def split_def)
  qed
qed

end

section \<open>Cleanup\<close>

fun typeName :: "kind \<Rightarrow> string" where
  "typeName KSecret = ''secret''"
| "typeName KConfigMap = ''configmap''"

fun specNames :: "kind \<Rightarrow> namespaceSync \<Rightarrow> string list" where
  "specNames KSecret n = SecretName (Spec n)"
| "specNames KConfigMap n = ConfigMapName (Spec n)"

text \<open>Where the cleanup of \<open>n\<close> may delete, given its live peers.\<close>

definition cleanupPlace :: "namespaceSync \<Rightarrow> namespaceSync set \<Rightarrow> kind \<Rightarrow> key \<Rightarrow> bool" where
  "cleanupPlace n peers k key \<longleftrightarrow>
     targetsNamespace (fst key) n \<and> snd key \<in> set (specNames k n) \<and>
     \<not> (\<exists>p \<in> peers. syncsInto (typeName k) (SourceNamespace (Spec n)) (fst key) (snd key) p \<or>
            readsAsSource (typeName k) (fst key) (snd key) p)"

definition livePeers :: "'w env \<Rightarrow> namespaceSync \<Rightarrow> namespaceSync list \<Rightarrow> namespaceSync set" where
  "livePeers E n items =
     {p \<in> set items. syncKey p \<noteq> syncKey n \<and> timeIsZero E (deletionTimestamp (nsMeta p))}"

lemma stub_simps [simp]:
  "objKind (secretStub name ns) = KSecret" "objKey (secretStub name ns) = (ns, name)"
  "objKind (configMapStub name ns) = KConfigMap" "objKey (configMapStub name ns) = (ns, name)"
  by (simp_all add: secretStub_def configMapStub_def objKey_def getNamespace_def getName_def)

lemma cleanupLoop_guarded:
  "extBy (deletesGuarded (cleanupPlace n (set peers)) (SourceNamespace (Spec n))) s (snd (cleanupLoop E n peers nss s))"
  by (rule del.cleanupLoop_ext; rule deleteManagedCopy_guarded)
    (auto simp: cleanupPlace_def unclaimed_filter)

lemma doListNamespaces_calls: "doListNamespaces E s = (r, t) \<Longrightarrow> calls t = calls s @ [CListNamespaces r]"
  by (auto simp: doListNamespaces_def dest: perform_result)

lemma doListSyncs_calls: "doListSyncs E s = (r, t) \<Longrightarrow> calls t = calls s @ [CListSyncs r]"
  by (auto simp: doListSyncs_def dest: perform_result)

lemma doUpdateSync_calls: "doUpdateSync E n s = (r, t) \<Longrightarrow> calls t = calls s @ [CUpdateSync n r]"
  by (auto simp: doUpdateSync_def dest: perform_result)

lemma listPeers_cases:
  assumes "listPeers E n s = (r, t)"
  obtains (failed) e where "calls t = calls s @ [CListSyncs (Inl e)]" and "r = Inl (wrapBack ''list NamespaceSyncs'' e)"
  | (listed) items peers where "calls t = calls s @ [CListSyncs (Inr items)]" and "r = Inr peers"
      and "set peers = livePeers E n items"
proof -
  obtain q u where q: "doListSyncs E s = (q, u)" by (metis surj_pair)
  with assms have "u = t" by (auto simp: listPeers_def split: sum.splits)
  with q assms show thesis
    using doListSyncs_calls [OF q] failed listed
    by (cases q) (auto simp: listPeers_def peerLoop_filter livePeers_def)
qed

text \<open>How a run of the cleanup ends, and what it called.\<close>

lemma cleanupSyncedResources_cases:
  assumes "cleanupSyncedResources E n s = (r, s')"
  obtains (no_namespaces) e where "calls s' = calls s @ [CListNamespaces (Inl e)]" and "r = Some e"
  | (no_peers) nss e where "calls s' = calls s @ [CListNamespaces (Inr nss), CListSyncs (Inl e)]" and "r \<noteq> None"
  | (ran) nss items peers t errs where "calls t = calls s @ [CListNamespaces (Inr nss), CListSyncs (Inr items)]"
      and "set peers = livePeers E n items" and "cleanupLoop E n peers nss t = (errs, s')"
      and "r = errorsJoin errs"
proof -
  obtain q u where q: "doListNamespaces E s = (q, u)" by (metis surj_pair)
  show thesis
  proof (cases q)
    case (Inl e)
    with assms q doListNamespaces_calls [OF q] no_namespaces show thesis
      by (auto simp: cleanupSyncedResources_def)
  next
    case (Inr nss)
    obtain v t where v: "listPeers E n u = (v, t)" by (metis surj_pair)
    from v show thesis
    proof (cases rule: listPeers_cases)
      case (failed e)
      with assms q v Inr doListNamespaces_calls [OF q] no_peers show thesis
        by (auto simp: cleanupSyncedResources_def)
    next
      case (listed items peers)
      obtain errs w where "cleanupLoop E n peers nss t = (errs, w)" by (metis surj_pair)
      with listed assms q v Inr doListNamespaces_calls [OF q] ran [of t nss items peers errs] show thesis
        by (auto simp: cleanupSyncedResources_def)
    qed
  qed
qed

section \<open>Errors reach the caller\<close>

lemma extBy_compose: "extBy P a b \<Longrightarrow> extBy Q b c \<Longrightarrow> (\<And>x y. P x \<Longrightarrow> Q y \<Longrightarrow> R (x @ y)) \<Longrightarrow> extBy R a c"
  by (fastforce simp: extBy_def)

lemma extBy_mono: "extBy P a b \<Longrightarrow> (\<And>x. P x \<Longrightarrow> R x) \<Longrightarrow> extBy R a b"
  by (auto simp: extBy_def)

definition failedIs :: "'w env \<Rightarrow> bool \<Rightarrow> 'w st \<Rightarrow> 'w st \<Rightarrow> bool" where
  "failedIs E b s s' = extBy (\<lambda>cs. list_ex (callFailed E) cs = b) s s'"

lemma failedIs_refl: "calls s' = calls s \<Longrightarrow> failedIs E False s s'"
  by (auto simp: failedIs_def extBy_def)

lemma failedIs_trans: "failedIs E b s t \<Longrightarrow> failedIs E b' t u \<Longrightarrow> failedIs E (b \<or> b') s u"
  unfolding failedIs_def by (erule (1) extBy_compose) auto

lemma failedIs_calls: "calls t = calls s @ cs \<Longrightarrow> failedIs E (list_ex (callFailed E) cs) s t"
  by (auto simp: failedIs_def extBy_def)

lemma deleteManagedCopy_reports:
  assumes "deleteManagedCopy E stub src s = (r, s')"
  shows "failedIs E (\<exists>e. r = Inl e) s s'"
  using assms
proof (cases rule: deleteManagedCopy_cases)
  case (kept rd)
  then show ?thesis using failedIs_calls [OF kept(1)] by simp
next
  case (deleted x e rd)
  have "\<not> callFailed E rd" using deleted(2) by auto
  then show ?thesis using failedIs_calls [OF deleted(1), of E] deleted(5) by simp
qed

lemma cleanupResource_reports:
  "cleanupResource E src ns names ty newObj s = (errs, s') \<Longrightarrow> failedIs E (errs \<noteq> []) s s'"
proof (induction names arbitrary: s errs)
  case Nil
  then show ?case by (simp add: failedIs_refl)
next
  case (Cons name names)
  obtain r t where d: "deleteManagedCopy E (newObj name ns) src s = (r, t)" by (metis surj_pair)
  define t' where "t' = (case r of Inl err \<Rightarrow> recordCleanupFailure ns ty t
    | Inr deleted \<Rightarrow> if deleted then recordCleanupSuccess ns ty t else t)"
  obtain errs' where rec: "cleanupResource E src ns names ty newObj t' = (errs', s')"
    and errs: "errs \<noteq> [] \<longleftrightarrow> (\<exists>e. r = Inl e) \<or> errs' \<noteq> []"
    using Cons.prems d by (cases r) (auto simp: t'_def split: prod.splits)
  have "calls t' = calls t" by (auto simp: t'_def split: sum.split)
  then show ?case
    using failedIs_trans [OF failedIs_trans [OF deleteManagedCopy_reports [OF d] failedIs_refl] Cons.IH [OF rec]] errs
    by simp
qed

lemma cleanupLoop_reports:
  "cleanupLoop E n peers nss s = (errs, s') \<Longrightarrow> failedIs E (errs \<noteq> []) s s'"
proof (induction nss arbitrary: s errs)
  case Nil
  then show ?case by (simp add: failedIs_refl)
next
  case (Cons ns nss)
  show ?case
  proof (cases "targetsNamespace ns n")
    case False
    with Cons show ?thesis by simp
  next
    case True
    let ?src = "SourceNamespace (Spec n)"
    obtain e1 s1 where 1: "cleanupResource E ?src ns (unclaimed peers ''secret'' ?src ns (SecretName (Spec n)))
        ''secret'' secretStub s = (e1, s1)" by (metis surj_pair)
    obtain e2 s2 where 2: "cleanupResource E ?src ns (unclaimed peers ''configmap'' ?src ns (ConfigMapName (Spec n)))
        ''configmap'' configMapStub s1 = (e2, s2)" by (metis surj_pair)
    obtain e3 where 3: "cleanupLoop E n peers nss s2 = (e3, s')" and "errs = e1 @ e2 @ e3"
      using Cons.prems True 1 2 by (auto simp: Let_def split: prod.splits)
    then show ?thesis
      using failedIs_trans [OF cleanupResource_reports [OF 1]
          failedIs_trans [OF cleanupResource_reports [OF 2] Cons.IH [OF 3]]] by simp
  qed
qed

lemma cleanupSyncedResources_reports:
  assumes "cleanupSyncedResources E n s = (r, s')"
  shows "failedIs E (r \<noteq> None) s s'"
  using assms
proof (cases rule: cleanupSyncedResources_cases)
  case (no_namespaces e)
  then show ?thesis using failedIs_calls [OF no_namespaces(1)] by simp
next
  case (no_peers nss e)
  then show ?thesis using failedIs_calls [OF no_peers(1)] by simp
next
  case (ran nss items peers t errs)
  then show ?thesis
    using failedIs_trans [OF failedIs_calls [OF ran(1)] cleanupLoop_reports [OF ran(3)]]
    by (auto simp: errorsJoin_def)
qed

section \<open>Deleting a NamespaceSync\<close>

text \<open>The sorts of calls a cleanup makes: it creates and updates nothing.\<close>

fun cleanupCall :: "call \<Rightarrow> bool" where
  "cleanupCall (CGet k key q) = True"
| "cleanupCall (CRead k key q) = True"
| "cleanupCall (CDelete x u v q) = True"
| "cleanupCall (CListNamespaces q) = True"
| "cleanupCall (CListSyncs q) = True"
| "cleanupCall c = False"

lemma cleanupCall_sorts: "cleanupCall c \<Longrightarrow> \<not> syncWrite c" "cleanupCall c \<Longrightarrow> isWrite c \<Longrightarrow> isDelete c"
  by (cases c; simp)+

lemma cleanupLoop_sorts: "extBy (list_all cleanupCall) s (snd (cleanupLoop E n peers nss s))"
proof -
  have del: "extBy (list_all cleanupCall) s (snd (deleteManagedCopy E stub src s))" for s :: "'a st" and stub src
  proof -
    obtain r s' where d: "deleteManagedCopy E stub src s = (r, s')" by (metis surj_pair)
    from d have "extBy (list_all cleanupCall) s s'"
      by (cases rule: deleteManagedCopy_cases) (auto simp: extBy_def)
    with d show ?thesis by simp
  qed
  show ?thesis by (rule each.cleanupLoop_ext) (rule del)+
qed

lemma cleanupSyncedResources_sorts:
  assumes "cleanupSyncedResources E n s = (r, s')"
  shows "extBy (list_all cleanupCall) s s'"
  using assms
proof (cases rule: cleanupSyncedResources_cases)
  case (ran nss items peers t errs)
  have "extBy (list_all cleanupCall) s t" by (rule extByI [OF ran(1)]) simp
  moreover have "extBy (list_all cleanupCall) t s'"
    using cleanupLoop_sorts [of t E n peers nss] ran(3) by simp
  ultimately show ?thesis by (rule each.step_trans)
qed (auto simp: extBy_def)

lemma cleanupSyncedResources_no_sync_write:
  "cleanupSyncedResources E n s = (r, s') \<Longrightarrow> extBy (list_all (\<lambda>c. \<not> syncWrite c)) s s'"
  by (drule cleanupSyncedResources_sorts, erule extBy_mono) (auto simp: list_all_iff dest: cleanupCall_sorts)

text \<open>What a cleanup may delete: nothing before it knows the peers, then only unneeded copies.\<close>

definition cleanupCalls :: "'w env \<Rightarrow> namespaceSync \<Rightarrow> call list \<Rightarrow> bool" where
  "cleanupCalls E n cs \<longleftrightarrow>
     list_all (\<lambda>c. isWrite c \<longrightarrow> isDelete c) cs \<and>
     (list_all (\<lambda>c. \<not> isDelete c) cs \<or>
      (\<exists>items. CListSyncs (Inr items) \<in> set cs \<and>
         deletesGuarded (cleanupPlace n (livePeers E n items)) (SourceNamespace (Spec n)) cs))"

lemma cleanupSyncedResources_guarded:
  assumes run: "cleanupSyncedResources E n s = (r, s')"
  shows "extBy (cleanupCalls E n) s s'"
proof -
  obtain cs where cs: "calls s' = calls s @ cs" "list_all cleanupCall cs"
    using cleanupSyncedResources_sorts [OF run] by (auto simp: extBy_def)
  have sorts: "list_all (\<lambda>c. isWrite c \<longrightarrow> isDelete c) cs"
    using cs(2) by (auto simp: list_all_iff dest: cleanupCall_sorts)
  from run have "list_all (\<lambda>c. \<not> isDelete c) cs \<or> (\<exists>items. CListSyncs (Inr items) \<in> set cs \<and>
      deletesGuarded (cleanupPlace n (livePeers E n items)) (SourceNamespace (Spec n)) cs)"
  proof (cases rule: cleanupSyncedResources_cases)
    case (ran nss items peers t errs)
    let ?G = "deletesGuarded (cleanupPlace n (livePeers E n items)) (SourceNamespace (Spec n))"
    have "extBy ?G t s'"
      using cleanupLoop_guarded [of n peers t E nss] ran(2,3) by simp
    then obtain ds where ds: "calls s' = calls t @ ds" "?G ds" by (auto simp: extBy_def)
    have "?G ([CListNamespaces (Inr nss), CListSyncs (Inr items)] @ ds)"
      by (rule del.Q_append [OF deletesGuarded_none ds(2)]) simp
    with ds(1) ran(1) cs(1) show ?thesis by (intro disjI2 exI [of _ items]) simp
  qed (use cs(1) in auto)
  with cs(1) sorts show ?thesis by (intro extByI [of _ _ cs]) (simp_all add: cleanupCalls_def)
qed

lemma cleanupCalls_snoc: "cleanupCalls E n cs \<Longrightarrow> \<not> isWrite c \<Longrightarrow> cleanupCalls E n (cs @ [c])"
proof -
  assume "cleanupCalls E n cs" and c: "\<not> isWrite c"
  moreover have "\<not> isDelete c" using c by (cases c) simp_all
  ultimately show ?thesis
    using del.Q_append [of _ _ cs "[c]"] deletesGuarded_none [of "[c]"]
    unfolding cleanupCalls_def by fastforce
qed

text \<open>
  The calls of a deletion, when the finalizer is there: those of a cleanup, then the write that
  removes the finalizer if the cleanup returned no error.
\<close>

lemma handleDeletion_cases:
  assumes "handleDeletionAndStatus E n s = ((d, r), s')"
  obtains (no_finalizer) "\<not> containsFinalizer E n finalizerName" and "s' = s" and "r = None"
  | (failed) e t where "containsFinalizer E n finalizerName" and "cleanupSyncedResources E n s = (Some e, t)"
      and "calls s' = calls t" and "r = Some e"
  | (cleaned) t q where "containsFinalizer E n finalizerName" and "cleanupSyncedResources E n s = (None, t)"
      and "calls s' = calls t @ [CUpdateSync (removeFinalizer E n finalizerName) q]"
      and "r = (case q of None \<Rightarrow> None | Some e \<Rightarrow> if isNotFound E e then None else Some e)"
proof -
  obtain c t where c: "cleanupSyncedResources E n s = (c, t)" by (metis surj_pair)
  note unfold = assms [unfolded handleDeletionAndStatus_def c Let_def]
  show thesis
  proof (cases "containsFinalizer E n finalizerName")
    case False
    with unfold show thesis by (intro no_finalizer) auto
  next
    case True
    show thesis
    proof (cases c)
      case (Some e)
      with unfold c True show thesis by (intro failed [of e t]) auto
    next
      case None
      define t' where "t' = recordEvent E n EventTypeNormal ''CleanupComplete'' ''Successfully cleaned up synced resources'' t"
      obtain q u where q: "doUpdateSync E (removeFinalizer E n finalizerName) t' = (q, u)" by (metis surj_pair)
      have "calls u = calls t @ [CUpdateSync (removeFinalizer E n finalizerName) q]"
        using doUpdateSync_calls [OF q] by (simp add: t'_def)
      with unfold q c True None show thesis
        by (intro cleaned [of t q]) (auto simp: t'_def split: option.splits if_splits)
    qed
  qed
qed

section \<open>Completeness of a cleanup\<close>

definition isRead :: "kind \<Rightarrow> key \<Rightarrow> goerr + obj \<Rightarrow> call \<Rightarrow> bool" where
  "isRead k key q c \<longleftrightarrow> c = CGet k key q \<or> c = CRead k key q"

text \<open>
  The history shows that no copy from \<open>src\<close> is left at a place: a read found nothing, or something else,
  or a copy, which the next call deleted or found already gone.
\<close>

definition isGone :: "'w env \<Rightarrow> string \<Rightarrow> kind \<Rightarrow> key \<Rightarrow> call list \<Rightarrow> bool" where
  "isGone E src k key cs \<longleftrightarrow>
     (\<exists>a c b q. cs = a @ c # b \<and> isRead k key q c \<and>
        (case q of
           Inl e \<Rightarrow> isNotFound E e
         | Inr x \<Rightarrow> \<not> isManagedCopy x src \<or>
            (\<exists>u v p b'. b = CDelete x u v p # b' \<and> (\<forall>e. p = Some e \<longrightarrow> isNotFound E e))))"

lemma isGone_append: "isGone E src k key xs \<Longrightarrow> isGone E src k key (xs @ ys)"
  unfolding isGone_def by (elim exE, rename_tac a c b q, rule_tac x = a in exI, rule_tac x = c in exI,
    rule_tac x = "b @ ys" in exI, rule_tac x = q in exI) (auto split: sum.splits)

lemma isGone_prepend: "isGone E src k key ys \<Longrightarrow> isGone E src k key (xs @ ys)"
  unfolding isGone_def by (elim exE, rename_tac a c b q, rule_tac x = "xs @ a" in exI) force

lemma isGone_deleted:
  "isRead k key (Inr x) c \<Longrightarrow> \<forall>e. p = Some e \<longrightarrow> isNotFound E e \<Longrightarrow> isGone E src k key [c, CDelete x u v p]"
  unfolding isGone_def
  by (rule exI [of _ "[]"], rule exI [of _ c], rule exI [of _ "[CDelete x u v p]"], rule exI [of _ "Inr x"]) simp

lemma isGone_kept:
  "isRead k key q c \<Longrightarrow> case q of Inl e \<Rightarrow> isNotFound E e | Inr x \<Rightarrow> \<not> isManagedCopy x src \<Longrightarrow>
     isGone E src k key [c]"
  unfolding isGone_def
  by (rule exI [of _ "[]"], rule exI [of _ c], rule exI [of _ "[]"], rule exI [of _ q]) (auto split: sum.splits)

lemma isGone_extend: "extBy (isGone E src k key) s t \<Longrightarrow> extBy (\<lambda>_. True) t u \<Longrightarrow> extBy (isGone E src k key) s u"
  "extBy (\<lambda>_. True) s t \<Longrightarrow> extBy (isGone E src k key) t u \<Longrightarrow> extBy (isGone E src k key) s u"
  by (fastforce simp: extBy_def intro: isGone_append isGone_prepend)+

lemma deleteManagedCopy_gone:
  assumes "deleteManagedCopy E stub src s = (Inr b, s')"
  shows "extBy (isGone E src (objKind stub) (objKey stub)) s s'"
proof -
  obtain q t where g: "uncachedGet E (objKind stub) (objKey stub) s = (q, t)" by (metis surj_pair)
  then obtain c where c: "calls t = calls s @ [c]" "isRead (objKind stub) (objKey stub) q c"
    by (auto simp: uncachedGet_def doGet_def isRead_def split: option.splits dest: perform_result)
  note unfold = assms [unfolded deleteManagedCopy_def g Let_def]
  show ?thesis
  proof (cases "\<exists>x. q = Inr x \<and> isManagedCopy x src")
    case True
    then obtain x where x: "q = Inr x" "isManagedCopy x src" by blast
    obtain p u where d: "doDelete E x (metaUID (objMeta x)) (resourceVersion (objMeta x)) t = (p, u)"
      by (metis surj_pair)
    have "calls u = calls t @ [CDelete x (metaUID (objMeta x)) (resourceVersion (objMeta x)) p]"
      using d by (auto simp: doDelete_def dest: perform_result)
    moreover have "u = s'" "\<forall>e. p = Some e \<longrightarrow> isNotFound E e"
      using unfold g x d by (auto split: option.splits if_splits)
    ultimately have "calls s' = calls s @ [c, CDelete x (metaUID (objMeta x)) (resourceVersion (objMeta x)) p]"
      and "isGone E src (objKind stub) (objKey stub) [c, CDelete x (metaUID (objMeta x)) (resourceVersion (objMeta x)) p]"
      using c x by (simp_all add: isGone_deleted)
    then show ?thesis by (rule extByI)
  next
    case False
    then have "s' = t" "case q of Inl e \<Rightarrow> isNotFound E e | Inr x \<Rightarrow> \<not> isManagedCopy x src"
      using unfold g by (auto split: sum.splits if_splits option.splits)
    then have "calls s' = calls s @ [c]" and "isGone E src (objKind stub) (objKey stub) [c]"
      using c by (simp_all add: isGone_kept)
    then show ?thesis by (rule extByI)
  qed
qed

lemma cleanupResource_grows: "extBy (\<lambda>_. True) s (snd (cleanupResource E src ns names ty newObj s))"
proof -
  have del: "extBy (\<lambda>_. True) s (snd (deleteManagedCopy E stub src s))" for s :: "'a st" and stub src
    using deleteManagedCopy_guarded [of "\<lambda>_ _. True" stub src s E] by (simp add: extBy_def) blast
  have "extBy (list_all (\<lambda>_. True)) s (snd (cleanupResource E src ns names ty newObj s))"
    using del by (intro each.cleanupResource_ext) (simp add: extBy_def list_all_iff)
  then show ?thesis by (rule extBy_mono) simp
qed

lemma cleanupLoop_grows: "extBy (\<lambda>_. True) s (snd (cleanupLoop E n peers nss s))"
  using cleanupLoop_sorts [of s E n peers nss] by (rule extBy_mono) simp

lemma cleanupResource_gone:
  "cleanupResource E src ns names ty newObj s = ([], s') \<Longrightarrow> name \<in> set names \<Longrightarrow>
     extBy (isGone E src (objKind (newObj name ns)) (objKey (newObj name ns))) s s'"
proof (induction names arbitrary: s)
  case (Cons a names)
  obtain r t where d: "deleteManagedCopy E (newObj a ns) src s = (r, t)" by (metis surj_pair)
  with Cons.prems(1) obtain b where b: "r = Inr b" by (cases r) (auto split: prod.splits)
  define t' where "t' = (if b then recordCleanupSuccess ns ty t else t)"
  have rest: "cleanupResource E src ns names ty newObj t' = ([], s')"
    using Cons.prems(1) d b by (auto simp: t'_def)
  have t': "calls t' = calls t" by (simp add: t'_def)
  show ?case
  proof (cases "name = a")
    case True
    have "extBy (isGone E src (objKind (newObj name ns)) (objKey (newObj name ns))) s t'"
      using deleteManagedCopy_gone [OF d [unfolded b]] t' True by (simp add: extBy_def)
    moreover have "extBy (\<lambda>_. True) t' s'"
      using cleanupResource_grows [of t' E src ns names ty newObj] rest by simp
    ultimately show ?thesis by (rule isGone_extend(1))
  next
    case False
    have "extBy (\<lambda>_. True) s t'"
      using deleteManagedCopy_gone [OF d [unfolded b]] t' by (auto simp: extBy_def)
    moreover have "extBy (isGone E src (objKind (newObj name ns)) (objKey (newObj name ns))) t' s'"
      using Cons.IH [OF rest] Cons.prems(2) False by simp
    ultimately show ?thesis by (rule isGone_extend(2))
  qed
qed simp

lemma cleanupLoop_gone:
  "cleanupLoop E n peers nss s = ([], s') \<Longrightarrow> fst key \<in> set nss \<Longrightarrow> cleanupPlace n (set peers) k key \<Longrightarrow>
     extBy (isGone E (SourceNamespace (Spec n)) k key) s s'"
proof (induction nss arbitrary: s)
  case (Cons ns nss)
  let ?src = "SourceNamespace (Spec n)"
  show ?case
  proof (cases "targetsNamespace ns n")
    case False
    with Cons show ?thesis by (auto simp: cleanupPlace_def)
  next
    case True
    obtain e1 s1 where 1: "cleanupResource E ?src ns (unclaimed peers ''secret'' ?src ns (SecretName (Spec n)))
        ''secret'' secretStub s = (e1, s1)" by (metis surj_pair)
    obtain e2 s2 where 2: "cleanupResource E ?src ns (unclaimed peers ''configmap'' ?src ns (ConfigMapName (Spec n)))
        ''configmap'' configMapStub s1 = (e2, s2)" by (metis surj_pair)
    have 3: "e1 = []" "e2 = []" "cleanupLoop E n peers nss s2 = ([], s')"
      using Cons.prems(1) True 1 2 by (auto simp: Let_def split: prod.splits)
    have g1: "extBy (\<lambda>_. True) s s1" and g2: "extBy (\<lambda>_. True) s1 s2" and g3: "extBy (\<lambda>_. True) s2 s'"
      using cleanupResource_grows [of s] cleanupResource_grows [of s1] cleanupLoop_grows [of s2] 1 2 3
      by (metis snd_conv)+
    show ?thesis
    proof (cases "fst key = ns")
      case False
      with Cons.IH [OF 3(3)] Cons.prems have "extBy (isGone E ?src k key) s2 s'" by simp
      from isGone_extend(2) [OF g1 isGone_extend(2) [OF g2 this]] show ?thesis .
    next
      case ns: True
      show ?thesis
      proof (cases k)
        case KSecret
        with Cons.prems(3) ns have "snd key \<in> set (unclaimed peers ''secret'' ?src ns (SecretName (Spec n)))"
          by (auto simp: cleanupPlace_def unclaimed_filter)
        from cleanupResource_gone [OF 1 [unfolded 3] this] KSecret
        have "extBy (isGone E ?src k key) s s1" by (simp flip: ns)
        from isGone_extend(1) [OF isGone_extend(1) [OF this g2] g3] show ?thesis .
      next
        case KConfigMap
        with Cons.prems(3) ns have "snd key \<in> set (unclaimed peers ''configmap'' ?src ns (ConfigMapName (Spec n)))"
          by (auto simp: cleanupPlace_def unclaimed_filter)
        from cleanupResource_gone [OF 2 [unfolded 3] this] KConfigMap
        have "extBy (isGone E ?src k key) s1 s2" by (simp flip: ns)
        from isGone_extend(2) [OF g1 isGone_extend(1) [OF this g3]] show ?thesis .
      qed
    qed
  qed
qed simp

definition cleanupComplete :: "'w env \<Rightarrow> namespaceSync \<Rightarrow> call list \<Rightarrow> bool" where
  "cleanupComplete E n cs \<longleftrightarrow>
     (\<exists>nss items. CListNamespaces (Inr nss) \<in> set cs \<and> CListSyncs (Inr items) \<in> set cs \<and>
        (\<forall>k key. fst key \<in> set nss \<and> cleanupPlace n (livePeers E n items) k key \<longrightarrow>
           isGone E (SourceNamespace (Spec n)) k key cs))"

lemma cleanupSyncedResources_complete:
  assumes "cleanupSyncedResources E n s = (None, s')"
  shows "extBy (cleanupComplete E n) s s'"
  using assms
proof (cases rule: cleanupSyncedResources_cases)
  case (ran nss items peers t errs)
  have errs: "cleanupLoop E n peers nss t = ([], s')" using ran(3,4) by (auto simp: errorsJoin_def split: if_splits)
  let ?pre = "[CListNamespaces (Inr nss), CListSyncs (Inr items)]"
  obtain ds where ds: "calls s' = calls t @ ds" using cleanupLoop_grows [of t E n peers nss] errs by (auto simp: extBy_def)
  have "isGone E (SourceNamespace (Spec n)) k key (?pre @ ds)"
    if "fst key \<in> set nss" "cleanupPlace n (livePeers E n items) k key" for k key
    using cleanupLoop_gone [OF errs that(1)] that(2) ran(2) ds isGone_prepend [of E _ k key ds ?pre]
    by (auto simp: extBy_def)
  then have "cleanupComplete E n (?pre @ ds)"
    unfolding cleanupComplete_def by (intro exI [of _ nss] exI [of _ items]) simp
  with ran(1) ds show ?thesis by (intro extByI) simp_all
qed auto

lemma cleanupComplete_append: "cleanupComplete E n cs \<Longrightarrow> cleanupComplete E n (cs @ ds)"
  unfolding cleanupComplete_def by (fastforce intro: isGone_append)

lemma handleDeletion_complete:
  assumes "handleDeletionAndStatus E n s = ((d, r), s')"
    and "calls s' = calls s @ cs" and "CUpdateSync m q \<in> set cs"
  shows "cleanupComplete E n cs"
  using assms(1)
proof (cases rule: handleDeletion_cases)
  case (failed e t)
  with cleanupSyncedResources_no_sync_write [OF failed(2)] assms(2,3) show ?thesis
    by (auto simp: extBy_def list_all_iff)
next
  case (cleaned t q)
  with cleanupSyncedResources_complete [OF cleaned(2)] assms(2) cleanupComplete_append show ?thesis
    by (auto simp: extBy_def)
qed (use assms in auto)


section \<open>Deletion of a NamespaceSync\<close>

lemma handleDeletion_guarded:
  "extBy (cleanupCalls E n) s (snd (handleDeletionAndStatus E n s))"
proof -
  obtain d r s' where h: "handleDeletionAndStatus E n s = ((d, r), s')" by (metis surj_pair)
  from h have "extBy (cleanupCalls E n) s s'"
  proof (cases rule: handleDeletion_cases)
    case no_finalizer
    then show ?thesis by (auto simp: extBy_def cleanupCalls_def)
  next
    case (failed e t)
    with cleanupSyncedResources_guarded [OF failed(2)] show ?thesis by (simp add: extBy_def)
  next
    case (cleaned t q)
    from cleanupSyncedResources_guarded [OF cleaned(2)] cleaned(3)
      cleanupCalls_snoc [of E n _ "CUpdateSync (removeFinalizer E n finalizerName) q"]
    show ?thesis by (auto simp: extBy_def)
  qed
  with h show ?thesis by simp
qed

text \<open>
  C15. Whatever the cluster answers, handling a deleted NamespaceSync deletes an object only right
  after reading it, only if what it read carries the tracking annotations of this NamespaceSync's
  source, with the UID and resource version it read as preconditions, only in a namespace the
  NamespaceSync targets and under a name it lists, and never an object that a live peer (as listed in
  the same run) still syncs there from the same source or reads as its own source.
\<close>

theorem deletion_removes_only_unneeded_copies:
  "extBy (cleanupCalls E n) s (snd (handleDeletionAndStatus E n s))"
  by (rule handleDeletion_guarded)

text \<open>How a run that finds the finalizer ends.\<close>

definition releaseRun :: "'w env \<Rightarrow> namespaceSync \<Rightarrow> call list \<Rightarrow> goerr option \<Rightarrow> bool" where
  "releaseRun E n cs r \<longleftrightarrow>
    (if list_ex (callFailed E) cs then r \<noteq> None \<and> \<not> list_ex syncWrite cs
     else \<exists>pre q. cs = pre @ [CUpdateSync (removeFinalizer E n finalizerName) q] \<and> \<not> list_ex syncWrite pre
            \<and> (r = None \<longleftrightarrow> q = None \<or> (\<exists>e. q = Some e \<and> isNotFound E e)))"

lemma handleDeletion_release:
  assumes "containsFinalizer E n finalizerName" and "handleDeletionAndStatus E n s = ((d, r), s')"
  shows "\<exists>cs. calls s' = calls s @ cs \<and> releaseRun E n cs r"
  using assms(2)
proof (cases rule: handleDeletion_cases)
  case (failed e t)
  obtain cs where "calls t = calls s @ cs" "list_ex (callFailed E) cs"
    using cleanupSyncedResources_reports [OF failed(2)] by (auto simp: failedIs_def extBy_def)
  moreover have "\<not> list_ex syncWrite cs"
    using cleanupSyncedResources_no_sync_write [OF failed(2)] calculation
    by (auto simp: extBy_def list_all_iff list_ex_iff)
  ultimately show ?thesis using failed unfolding releaseRun_def by auto
next
  case (cleaned t q)
  obtain cs where "calls t = calls s @ cs" "\<not> list_ex (callFailed E) cs"
    using cleanupSyncedResources_reports [OF cleaned(2)] by (auto simp: failedIs_def extBy_def)
  moreover have "\<not> list_ex syncWrite cs"
    using cleanupSyncedResources_no_sync_write [OF cleaned(2)] calculation
    by (auto simp: extBy_def list_all_iff list_ex_iff)
  ultimately show ?thesis using cleaned unfolding releaseRun_def by (auto split: option.splits if_splits)
qed (use assms in auto)


text \<open>
  C6. The finalizer is only removed once the cleanup is complete: if any list, read or delete of the
  cleanup failed, the NamespaceSync is not written at all and the error is returned, so the deletion
  is retried; otherwise the last call, and the only write to the NamespaceSync, removes the finalizer.
\<close>

theorem finalizer_removed_only_after_cleanup:
  assumes "containsFinalizer E n finalizerName"
    and "handleDeletionAndStatus E n s = ((d, r), s')"
  shows "\<exists>cs. calls s' = calls s @ cs \<and>
    (if list_ex (callFailed E) cs then r \<noteq> None \<and> \<not> list_ex syncWrite cs
     else \<exists>pre q. cs = pre @ [CUpdateSync (removeFinalizer E n finalizerName) q] \<and> \<not> list_ex syncWrite pre
            \<and> (r = None \<longleftrightarrow> q = None \<or> (\<exists>e. q = Some e \<and> isNotFound E e)))"
  using handleDeletion_release [OF assms] by (simp only: releaseRun_def)

definition deletedSync :: namespaceSync where
  "deletedSync = (sampleSync ''a'' ''alpha'' [''team''] [''s''])\<lparr>nsMeta :=
     (sampleMeta ''ops'' ''a'' None)\<lparr>finalizers := [finalizerName]\<rparr>\<rparr>"

theorem finalizer_removed_only_after_cleanup_witness:
  "let res = handleDeletionAndStatus memEnv deletedSync (memStart emptyMem) in
   \<exists>cs. calls (snd res) = cs \<and>
    (if list_ex (callFailed memEnv) cs then snd (fst res) \<noteq> None \<and> \<not> list_ex syncWrite cs
     else \<exists>pre q. cs = pre @ [CUpdateSync (removeFinalizer memEnv deletedSync finalizerName) q]
            \<and> \<not> list_ex syncWrite pre
            \<and> (snd (fst res) = None \<longleftrightarrow> q = None \<or> (\<exists>e. q = Some e \<and> isNotFound memEnv e)))"
proof -
  have fin: "containsFinalizer memEnv deletedSync finalizerName" by (simp add: deletedSync_def)
  obtain d r s' where h: "handleDeletionAndStatus memEnv deletedSync (memStart emptyMem) = ((d, r), s')"
    by (metis surj_pair)
  have "calls (memStart emptyMem) = []" by (simp add: memStart_def)
  with finalizer_removed_only_after_cleanup [OF fin h] show ?thesis
    unfolding Let_def h by (simp del: memEnv_simps)
qed

end
