(* ===== verification/Sync.thy ===== *)
theory Sync
  imports Cleanup
begin

text \<open>
  \<^verbatim>\<open>internal/controller/sync.go\<close>: syncing one Secret or ConfigMap into one namespace, and the lists of
  them. The specification is the relation \<open>syncRun\<close>, the calls one such sync may make with the error
  it then returns; \<open>syncSecret\<close> and \<open>syncConfigMap\<close> are two instances of it, through the interface
  \<open>copy_kind\<close>.
\<close>

section \<open>One resource\<close>

definition removeStaleCopy ::
    "'w env \<Rightarrow> obj \<Rightarrow> string \<Rightarrow> string \<Rightarrow> namespaceSync list \<Rightarrow> bool \<Rightarrow> 'w st \<Rightarrow> goerr option \<times> 'w st" where
  "removeStaleCopy E x sourceNamespace ty peers explicit s =
     (if \<not> explicit \<and> sourceOwner peers ty (getNamespace x) (getName x) \<noteq> None then (None, s)
      else (case deleteManagedCopy E x sourceNamespace s of
              (Inl err, s) \<Rightarrow> (Some err, s)
            | (Inr deleted, s) \<Rightarrow> (None, s)))"

text \<open>
  The typed variable a \<open>Get\<close> decodes into: the client never decodes another kind, and a variable
  nothing is decoded into keeps its zero value.
\<close>

fun asSecret :: "obj \<Rightarrow> secret" where
  "asSecret (ObjSecret x) = x"
| "asSecret (ObjConfigMap x) = \<lparr>secMeta = emptyMeta, secImmutable = None, secData = None,
     secStringData = None, secType = []\<rparr>"

fun asConfigMap :: "obj \<Rightarrow> configMap" where
  "asConfigMap (ObjConfigMap x) = x"
| "asConfigMap (ObjSecret x) = \<lparr>cmMeta = emptyMeta, cmImmutable = None, cmData = None, cmBinaryData = None\<rparr>"

definition newSecret :: "string \<Rightarrow> string \<Rightarrow> secret \<Rightarrow> secret" where
  "newSecret name ns x = \<lparr>secMeta = emptyMeta\<lparr>metaName := name, metaNamespace := ns\<rparr>, secImmutable = None,
     secData = secData x, secStringData = None, secType = secType x\<rparr>"

definition newConfigMap :: "string \<Rightarrow> string \<Rightarrow> configMap \<Rightarrow> configMap" where
  "newConfigMap name ns x = \<lparr>cmMeta = emptyMeta\<lparr>metaName := name, metaNamespace := ns\<rparr>, cmImmutable = None,
     cmData = cmData x, cmBinaryData = cmBinaryData x\<rparr>"

text \<open>The \<open>updateFields\<close> functions, from \<open>src\<close> to \<open>dst\<close>.\<close>

fun updateSecret :: "obj \<Rightarrow> obj \<Rightarrow> obj" where
  "updateSecret (ObjSecret src) (ObjSecret dst) = ObjSecret (dst\<lparr>
     secData := secData src, secStringData := secStringData src, secType := secType src,
     secMeta := (secMeta dst)\<lparr>labels := labels (secMeta src), annotations := annotations (secMeta src)\<rparr>\<rparr>)"
| "updateSecret src dst = dst"

fun updateConfigMap :: "obj \<Rightarrow> obj \<Rightarrow> obj" where
  "updateConfigMap (ObjConfigMap src) (ObjConfigMap dst) = ObjConfigMap (dst\<lparr>
     cmData := cmData src, cmBinaryData := cmBinaryData src,
     cmMeta := (cmMeta dst)\<lparr>labels := labels (cmMeta src), annotations := annotations (cmMeta src)\<rparr>\<rparr>)"
| "updateConfigMap src dst = dst"

definition syncSecret ::
    "'w env \<Rightarrow> string \<Rightarrow> string \<Rightarrow> string \<Rightarrow> namespaceSync list \<Rightarrow> bool \<Rightarrow> 'w st \<Rightarrow> goerr option \<times> 'w st" where
  "syncSecret E sourceNamespace targetNamespace secretName' peers explicit s =
     (case doGet E KSecret (sourceNamespace, secretName') s of
        (Inl err, s) \<Rightarrow>
          (if isNotFound E err
           then removeStaleCopy E (secretStub secretName' targetNamespace) sourceNamespace ''secret'' peers explicit s
           else (Some err, s))
      | (Inr x, s) \<Rightarrow>
          (let secret = asSecret x in
           case (if \<not> explicit then sourceConflict peers ''secret'' targetNamespace secretName' else None) of
             Some err \<Rightarrow> (Some err, recordSyncConflict targetNamespace ''secret'' s)
           | None \<Rightarrow>
               (let new = newSecret secretName' targetNamespace secret;
                    (m, s) = copyLabelsAndAnnotations E (secMeta secret) (secMeta new) s;
                    new = new\<lparr>secMeta := m\<rparr>
                in createOrUpdateResource E (ObjSecret new) ''secret''
                     (copyConflictGuard peers ''secret'' sourceNamespace explicit) updateSecret s)))"

definition syncConfigMap ::
    "'w env \<Rightarrow> string \<Rightarrow> string \<Rightarrow> string \<Rightarrow> namespaceSync list \<Rightarrow> bool \<Rightarrow> 'w st \<Rightarrow> goerr option \<times> 'w st" where
  "syncConfigMap E sourceNamespace targetNamespace configMapName' peers explicit s =
     (case doGet E KConfigMap (sourceNamespace, configMapName') s of
        (Inl err, s) \<Rightarrow>
          (if isNotFound E err
           then removeStaleCopy E (configMapStub configMapName' targetNamespace) sourceNamespace ''configmap'' peers explicit s
           else (Some err, s))
      | (Inr x, s) \<Rightarrow>
          (let configMap = asConfigMap x in
           case (if \<not> explicit then sourceConflict peers ''configmap'' targetNamespace configMapName' else None) of
             Some err \<Rightarrow> (Some err, recordSyncConflict targetNamespace ''configmap'' s)
           | None \<Rightarrow>
               (let new = newConfigMap configMapName' targetNamespace configMap;
                    (m, s) = copyLabelsAndAnnotations E (cmMeta configMap) (cmMeta new) s;
                    new = new\<lparr>cmMeta := m\<rparr>
                in createOrUpdateResource E (ObjConfigMap new) ''configmap''
                     (copyConflictGuard peers ''configmap'' sourceNamespace explicit) updateConfigMap s)))"

section \<open>Lists of resources\<close>

text \<open>The result is the list of conflicts and the error.\<close>

fun syncResourceList ::
    "string list \<Rightarrow> resourceFilter option \<Rightarrow> (string \<Rightarrow> 'w st \<Rightarrow> goerr option \<times> 'w st) \<Rightarrow> 'w st \<Rightarrow>
     (goerr list \<times> goerr option) \<times> 'w st" where
  "syncResourceList [] flt syncFn s = (([], None), s)"
| "syncResourceList (name # names) flt syncFn s =
     (if flt \<noteq> None \<and> \<not> shouldSyncResource name flt then syncResourceList names flt syncFn s
      else (case syncFn name s of
              (Some err, s) \<Rightarrow>
                (if errorsIs err errSyncConflict
                 then (let ((conflicts, e), s) = syncResourceList names flt syncFn s in ((err # conflicts, e), s))
                 else (([], Some err), s))
            | (None, s) \<Rightarrow> syncResourceList names flt syncFn s))"

definition syncResources ::
    "'w env \<Rightarrow> namespaceSync \<Rightarrow> string \<Rightarrow> namespaceSync list \<Rightarrow> 'w st \<Rightarrow> (goerr list \<times> goerr option) \<times> 'w st" where
  "syncResources E n targetNamespace peers s =
     (let (secretFilter, configMapFilter) = (case ResourceFilters (Spec n) of
            None \<Rightarrow> (None, None) | Some f \<Rightarrow> (filterSecrets f, filterConfigMaps f));
          source = SourceNamespace (Spec n);
          explicit = contains (TargetNamespaces (Spec n)) targetNamespace;
          ((conflicts, err), s) = syncResourceList (SecretName (Spec n)) secretFilter
            (\<lambda>name. syncSecret E source targetNamespace name peers explicit) s
      in case err of
           Some e \<Rightarrow> ((conflicts, Some e), s)
         | None \<Rightarrow>
             (let ((configMapConflicts, err), s) = syncResourceList (ConfigMapName (Spec n)) configMapFilter
                    (\<lambda>name. syncConfigMap E source targetNamespace name peers explicit) s
              in ((conflicts @ configMapConflicts, err), s)))"

section \<open>What a copy is\<close>

text \<open>The content of an object, what the copy takes of it, and its immutable flag.\<close>

fun payload :: "obj \<Rightarrow> gomap \<times> gomap \<times> string" where
  "payload (ObjSecret x) = (secData x, secStringData x, secType x)"
| "payload (ObjConfigMap x) = (cmData x, cmBinaryData x, [])"

fun copiedPayload :: "obj \<Rightarrow> gomap \<times> gomap \<times> string" where
  "copiedPayload (ObjSecret x) = (secData x, None, secType x)"
| "copiedPayload (ObjConfigMap x) = (cmData x, cmBinaryData x, [])"

fun immutableFlag :: "obj \<Rightarrow> bool option" where
  "immutableFlag (ObjSecret x) = secImmutable x"
| "immutableFlag (ObjConfigMap x) = cmImmutable x"

definition payloadEntries :: "gomap \<times> gomap \<times> string \<Rightarrow> (string, string) fmap \<times> (string, string) fmap \<times> string" where
  "payloadEntries p = (case p of (a, b, c) \<Rightarrow> (mapEntries a, mapEntries b, c))"

text \<open>\<open>y\<close> holds what a copy of \<open>x\<close> should, whenever it was stamped.\<close>

definition upToDate :: "obj \<Rightarrow> obj \<Rightarrow> bool" where
  "upToDate x y \<longleftrightarrow>
     payloadEntries (payload y) = payloadEntries (copiedPayload x) \<and>
     (\<forall>k. mapLookup (getLabels y) k = (if isSourceOnlyKey k then None else mapLookup (getLabels x) k)) \<and>
     mapLookup (getAnnotations y) AnnotationLastSync \<noteq> None \<and>
     (\<forall>k. k \<noteq> AnnotationLastSync \<longrightarrow> mapLookup (getAnnotations y) k =
        (if k = AnnotationSourceNamespace then Some (getNamespace x)
         else if k = AnnotationSourceName then Some (getName x)
         else if isSourceOnlyKey k then None else mapLookup (getAnnotations x) k))"

text \<open>Everything of an object that a sync leaves as it finds it.\<close>

definition sameFrame :: "obj \<Rightarrow> obj \<Rightarrow> bool" where
  "sameFrame a b \<longleftrightarrow> objKind a = objKind b \<and> immutableFlag a = immutableFlag b \<and>
     (objMeta a)\<lparr>labels := None, annotations := None\<rparr> = (objMeta b)\<lparr>labels := None, annotations := None\<rparr>"

text \<open>The stamp of \<open>y\<close> stays when only labels and annotations change.\<close>

definition keptStamp :: "'w env \<Rightarrow> obj \<Rightarrow> obj \<Rightarrow> bool" where
  "keptStamp E y z \<longleftrightarrow>
     (\<forall>stamp. mapLookup (getAnnotations y) AnnotationLastSync = Some stamp \<longrightarrow>
        equalIgnoringLabelsAndAnnotations E y z \<longrightarrow>
        mapLookup (getAnnotations z) AnnotationLastSync = Some stamp)"

lemma setMeta_payload [simp]: "payload (setMeta m x) = payload x" "immutableFlag (setMeta m x) = immutableFlag x"
  by (cases x; simp)+

lemma getters_setMeta [simp]:
  "getLabels (setMeta m x) = labels m" "getAnnotations (setMeta m x) = annotations m"
  "getName (setMeta m x) = metaName m" "getNamespace (setMeta m x) = metaNamespace m"
  "objKey (setMeta m x) = (metaNamespace m, metaName m)"
  by (simp_all add: getLabels_def getAnnotations_def getName_def getNamespace_def objKey_def)

lemma set_annotations_payload [simp]:
  "payload (setAnnotations a x) = payload x" "immutableFlag (setAnnotations a x) = immutableFlag x"
  "payload (setLabels a x) = payload x" "immutableFlag (setLabels a x) = immutableFlag x"
  "getLabels (setAnnotations a x) = getLabels x"
  by (simp_all add: setAnnotations_def setLabels_def getLabels_def)

lemma upToDate_cong:
  "payload y = payload z \<Longrightarrow> getLabels y = getLabels z \<Longrightarrow> getAnnotations y = getAnnotations z \<Longrightarrow>
     upToDate x y = upToDate x z"
  by (simp add: upToDate_def)

lemma upToDate_stamp:
  "upToDate x z \<Longrightarrow> upToDate x (setAnnotations (Some (fmupd AnnotationLastSync st (mapEntries (getAnnotations z)))) z)"
  by (simp add: upToDate_def meta_simps) (simp add: mapLookup_entries)

lemma keepLastSync_eq:
  "keepLastSync E y z =
     (case mapLookup (getAnnotations y) AnnotationLastSync of
        None \<Rightarrow> z
      | Some stamp \<Rightarrow> if equalIgnoringLabelsAndAnnotations E y z
          then setAnnotations (Some (fmupd AnnotationLastSync stamp (mapEntries (getAnnotations z)))) z else z)"
  by (auto simp: keepLastSync_def mapEntries_def Let_def split: option.splits)

lemma keepLastSync_upToDate: "upToDate x z \<Longrightarrow> upToDate x (keepLastSync E y z)"
  by (auto simp: keepLastSync_eq upToDate_stamp split: option.splits)

lemma sameFrame_annotations [simp]: "sameFrame y (setAnnotations a z) = sameFrame y z"
  by (simp add: sameFrame_def meta_simps)

lemma keepLastSync_frame: "sameFrame y z \<Longrightarrow> sameFrame y (keepLastSync E y z)"
  by (auto simp: keepLastSync_eq split: option.splits)

lemma equalIgnoring_annotations [simp]:
  "equalIgnoringLabelsAndAnnotations E y (setAnnotations a z) = equalIgnoringLabelsAndAnnotations E y z"
  by (cases z) (simp_all add: equalIgnoringLabelsAndAnnotations_def setAnnotations_def setLabels_def)

lemma keepLastSync_kept: "keptStamp E y (keepLastSync E y z)"
  by (auto simp: keptStamp_def keepLastSync_eq meta_simps split: option.splits)

section \<open>Runs\<close>

text \<open>
  The reads of the environment return the object they were asked for.
\<close>

definition getsAsked :: "'w env \<Rightarrow> bool" where
  "getsAsked E \<longleftrightarrow>
     (\<forall>k key w x. fst (cl_get E k key w) = Inr x \<longrightarrow> objKind x = k \<and> objKey x = key) \<and>
     (\<forall>f k key w x. apiReader E = Some f \<longrightarrow> fst (f k key w) = Inr x \<longrightarrow> objKind x = k \<and> objKey x = key)"

lemma perform_fst: "fst (perform f c s) = fst (f (world s))"
  by (simp add: perform_def split: prod.split)

lemma doGet_asked: "getsAsked E \<Longrightarrow> fst (doGet E k key s) = Inr x \<Longrightarrow> objKind x = k \<and> objKey x = key"
  by (cases key) (auto simp: getsAsked_def doGet_def perform_fst)

lemma uncachedGet_asked:
  "getsAsked E \<Longrightarrow> fst (uncachedGet E k key s) = Inr x \<Longrightarrow> objKind x = k \<and> objKey x = key"
  by (cases key; cases "apiReader E") (auto simp: getsAsked_def uncachedGet_def doGet_def perform_fst)

text \<open>
  The runs of a sync of the \<open>k\<close> named \<open>name\<close> from \<open>src\<close> to \<open>tgt\<close>: the calls made and the error
  returned. In the last two rules \<open>z\<close> is the copy of \<open>x\<close> laid over the object \<open>y\<close> found.
\<close>

inductive syncRun ::
    "'w env \<Rightarrow> kind \<Rightarrow> string \<Rightarrow> string \<Rightarrow> string \<Rightarrow> namespaceSync list \<Rightarrow> bool \<Rightarrow> call list \<Rightarrow> goerr option \<Rightarrow> bool"
  for E :: "'w env" and k src tgt name peers explicit where
  source_unread: "\<not> isNotFound E e \<Longrightarrow>
     syncRun E k src tgt name peers explicit [CGet k (src, name) (Inl e)] (Some e)"
| stale_foreign: "isNotFound E e \<Longrightarrow> \<not> explicit \<Longrightarrow> \<exists>p \<in> set peers. readsAsSource (typeName k) tgt name p \<Longrightarrow>
     syncRun E k src tgt name peers explicit [CGet k (src, name) (Inl e)] None"
| stale_kept: "isNotFound E e \<Longrightarrow> isRead k (tgt, name) q rd \<Longrightarrow> \<forall>y. q = Inr y \<longrightarrow> \<not> isManagedCopy y src \<Longrightarrow>
     r = readError E (tgt, name) q \<Longrightarrow>
     syncRun E k src tgt name peers explicit [CGet k (src, name) (Inl e), rd] r"
| stale_deleted: "isNotFound E e \<Longrightarrow> objKind y = k \<Longrightarrow> objKey y = (tgt, name) \<Longrightarrow>
     isRead k (tgt, name) (Inr y) rd \<Longrightarrow> isManagedCopy y src \<Longrightarrow>
     explicit \<or> \<not> (\<exists>p \<in> set peers. readsAsSource (typeName k) tgt name p) \<Longrightarrow>
     d = CDelete y (metaUID (objMeta y)) (resourceVersion (objMeta y)) q \<Longrightarrow> r = deleteError E (tgt, name) q \<Longrightarrow>
     syncRun E k src tgt name peers explicit [CGet k (src, name) (Inl e), rd, d] r"
| claimed: "\<not> explicit \<Longrightarrow> sourceConflict peers (typeName k) tgt name = Some e \<Longrightarrow>
     syncRun E k src tgt name peers explicit [CGet k (src, name) (Inr x)] (Some e)"
| target_unread: "\<not> isNotFound E e \<Longrightarrow>
     syncRun E k src tgt name peers explicit [CGet k (src, name) (Inr x), CGet k (tgt, name) (Inl e)] (Some e)"
| created: "objKind x = k \<Longrightarrow> objKey x = (src, name) \<Longrightarrow> isNotFound E e \<Longrightarrow>
     explicit \<or> sourceConflict peers (typeName k) tgt name = None \<Longrightarrow>
     objKind z = k \<Longrightarrow> objKey z = (tgt, name) \<Longrightarrow> upToDate x z \<Longrightarrow>
     syncRun E k src tgt name peers explicit
       [CGet k (src, name) (Inr x), CGet k (tgt, name) (Inl e), CCreate z q] q"
| refused: "objKind y = k \<Longrightarrow> objKey y = (tgt, name) \<Longrightarrow> copyConflictGuard peers (typeName k) src explicit y = Some e \<Longrightarrow>
     syncRun E k src tgt name peers explicit [CGet k (src, name) (Inr x), CGet k (tgt, name) (Inr y)] (Some e)"
| in_sync: "objKind x = k \<Longrightarrow> objKey x = (src, name) \<Longrightarrow> objKind y = k \<Longrightarrow> objKey y = (tgt, name) \<Longrightarrow>
     explicit \<or> sourceConflict peers (typeName k) tgt name = None \<Longrightarrow>
     copyConflictGuard peers (typeName k) src explicit y = None \<Longrightarrow>
     sameFrame y z \<Longrightarrow> upToDate x z \<Longrightarrow> keptStamp E y z \<Longrightarrow> semDeepEqual E y z \<Longrightarrow>
     syncRun E k src tgt name peers explicit [CGet k (src, name) (Inr x), CGet k (tgt, name) (Inr y)] None"
| updated: "objKind x = k \<Longrightarrow> objKey x = (src, name) \<Longrightarrow> objKind y = k \<Longrightarrow> objKey y = (tgt, name) \<Longrightarrow>
     explicit \<or> sourceConflict peers (typeName k) tgt name = None \<Longrightarrow>
     copyConflictGuard peers (typeName k) src explicit y = None \<Longrightarrow>
     sameFrame y z \<Longrightarrow> upToDate x z \<Longrightarrow> keptStamp E y z \<Longrightarrow> \<not> semDeepEqual E y z \<Longrightarrow> r = updateError q \<Longrightarrow>
     syncRun E k src tgt name peers explicit
       [CGet k (src, name) (Inr x), CGet k (tgt, name) (Inr y), CUpdate z q] r"

section \<open>The two kinds of copies\<close>

text \<open>
  A sync over the operations its kind provides: the stub to delete, the metadata of what was read, the
  fresh copy, the update of an existing object. \<open>copy_kind\<close> states what the proofs need of them.
\<close>

definition syncCopy ::
    "'w env \<Rightarrow> kind \<Rightarrow> (string \<Rightarrow> string \<Rightarrow> obj) \<Rightarrow> (obj \<Rightarrow> objectMeta) \<Rightarrow> (string \<Rightarrow> string \<Rightarrow> obj \<Rightarrow> obj) \<Rightarrow>
     (obj \<Rightarrow> obj \<Rightarrow> obj) \<Rightarrow> string \<Rightarrow> string \<Rightarrow> string \<Rightarrow> namespaceSync list \<Rightarrow> bool \<Rightarrow> 'w st \<Rightarrow> goerr option \<times> 'w st" where
  "syncCopy E k stub srcMeta mk upd src tgt name peers explicit s =
     (case doGet E k (src, name) s of
        (Inl err, s) \<Rightarrow>
          (if isNotFound E err then removeStaleCopy E (stub name tgt) src (typeName k) peers explicit s
           else (Some err, s))
      | (Inr x, s) \<Rightarrow>
          (case (if \<not> explicit then sourceConflict peers (typeName k) tgt name else None) of
             Some err \<Rightarrow> (Some err, recordSyncConflict tgt (typeName k) s)
           | None \<Rightarrow>
               (let (m, s) = copyLabelsAndAnnotations E (srcMeta x) (objMeta (mk name tgt x)) s
                in createOrUpdateResource E (setMeta m (mk name tgt x)) (typeName k)
                     (copyConflictGuard peers (typeName k) src explicit) upd s)))"

locale copy_kind =
  fixes k :: kind
    and stub :: "string \<Rightarrow> string \<Rightarrow> obj"
    and srcMeta :: "obj \<Rightarrow> objectMeta"
    and mk :: "string \<Rightarrow> string \<Rightarrow> obj \<Rightarrow> obj"
    and upd :: "obj \<Rightarrow> obj \<Rightarrow> obj"
  assumes stub_place: "objKind (stub name tgt) = k \<and> objKey (stub name tgt) = (tgt, name)"
    and srcMeta_eq: "objKind x = k \<Longrightarrow> srcMeta x = objMeta x"
    and mk_kind: "objKind (mk name tgt x) = k"
    and mk_meta: "objMeta (mk name tgt x) = emptyMeta\<lparr>metaName := name, metaNamespace := tgt\<rparr>"
    and mk_payload: "objKind x = k \<Longrightarrow> payload (mk name tgt x) = copiedPayload x"
    and upd_meta: "objKind a = k \<Longrightarrow> objKind y = k \<Longrightarrow>
      objMeta (upd a y) = (objMeta y)\<lparr>labels := getLabels a, annotations := getAnnotations a\<rparr>"
    and upd_payload: "objKind a = k \<Longrightarrow> objKind y = k \<Longrightarrow> payload (upd a y) = payload a"
    and upd_frame: "objKind a = k \<Longrightarrow> objKind y = k \<Longrightarrow>
      objKind (upd a y) = k \<and> immutableFlag (upd a y) = immutableFlag y"
begin

definition fresh :: "string \<Rightarrow> string \<Rightarrow> obj \<Rightarrow> objectMeta \<Rightarrow> obj" where
  "fresh name tgt x m = setMeta m (mk name tgt x)"

lemma fresh_upToDate:
  assumes "objKind x = k" and m: "m = fst (copyLabelsAndAnnotations E (srcMeta x) (objMeta (mk name tgt x)) s)"
  shows "upToDate x (fresh name tgt x m)" and "objKind (fresh name tgt x m) = k"
    and "objKey (fresh name tgt x m) = (tgt, name)"
proof -
  show "upToDate x (fresh name tgt x m)"
    by (simp add: upToDate_def fresh_def mk_payload mk_meta srcMeta_eq assms emptyMeta_def
        copyLabelsAndAnnotations_labels copyLabelsAndAnnotations_annotations getLabels_def
        getAnnotations_def getName_def getNamespace_def split: option.split)
  show "objKind (fresh name tgt x m) = k" by (simp add: fresh_def mk_kind)
  show "objKey (fresh name tgt x m) = (tgt, name)" by (simp add: fresh_def m meta_simps mk_meta)
qed

lemma upd_upToDate:
  assumes "objKind a = k" and "objKind y = k" and "upToDate x a"
  shows "upToDate x (upd a y) \<and> sameFrame y (upd a y)"
proof -
  have "upToDate x (upd a y) = upToDate x a"
    using assms by (intro upToDate_cong) (simp_all add: upd_payload upd_meta getLabels_def getAnnotations_def)
  with assms show ?thesis by (simp add: sameFrame_def upd_frame upd_meta)
qed

lemma removeStaleCopy_run:
  assumes "isNotFound E e" and asked: "getsAsked E" and "removeStaleCopy E (stub name tgt) src (typeName k) peers explicit s = (r, s')"
  shows "\<exists>cs. calls s' = calls s @ cs \<and>
    syncRun E k src tgt name peers explicit (CGet k (src, name) (Inl e) # cs) r"
proof -
  have place: "getNamespace (stub name tgt) = tgt" "getName (stub name tgt) = name"
    using stub_place by (auto simp: objKey_def)
  have owner: "sourceOwner peers (typeName k) tgt name \<noteq> None \<longleftrightarrow>
      (\<exists>p \<in> set peers. readsAsSource (typeName k) tgt name p)"
    by (rule src.found_iff)
  show ?thesis
  proof (cases "\<not> explicit \<and> sourceOwner peers (typeName k) tgt name \<noteq> None")
    case True
    with assms owner place show ?thesis
      by (auto simp: removeStaleCopy_def intro!: stale_foreign)
  next
    case False
    obtain q t where d: "deleteManagedCopy E (stub name tgt) src s = (q, t)" by (metis surj_pair)
    have r: "t = s'" "r = (case q of Inl err \<Rightarrow> Some err | Inr _ \<Rightarrow> None)"
      using assms(3) False place d by (auto simp: removeStaleCopy_def split: sum.splits)
    from d show ?thesis
    proof (cases rule: deleteManagedCopy_cases)
      case (kept rd p)
      then show ?thesis
        using assms(1) r stub_place by (intro exI [of _ "[rd]"] conjI stale_kept) (auto simp: isRead_def)
    next
      case (deleted y p rd)
      have "objKind y = k \<and> objKey y = (tgt, name)"
        using uncachedGet_asked [OF asked deleted(6)] stub_place by simp
      with deleted show ?thesis
        using assms(1) r False owner stub_place
        by (intro exI [of _ "[rd, CDelete y (metaUID (objMeta y)) (resourceVersion (objMeta y)) p]"] conjI stale_deleted)
          (auto simp: isRead_def)
    qed
  qed
qed

lemma createOrUpdate_run:
  assumes "getsAsked E" and x: "objKind x = k" "objKey x = (src, name)"
    and "explicit \<or> sourceConflict peers (typeName k) tgt name = None"
    and a: "objKind a = k" "objKey a = (tgt, name)" "upToDate x a"
    and run: "createOrUpdateResource E a (typeName k) (copyConflictGuard peers (typeName k) src explicit) upd s = (r, s')"
  shows "\<exists>cs. calls s' = calls s @ cs \<and>
    syncRun E k src tgt name peers explicit (CGet k (src, name) (Inr x) # cs) r"
  using run
proof (cases rule: createOrUpdateResource_cases)
  case (unread e)
  then show ?thesis using a by (auto intro: target_unread)
next
  case (created e q)
  then show ?thesis using assms by (auto intro!: syncRun.created)
next
  case (refused y e)
  then show ?thesis using a doGet_asked [OF assms(1) refused(4)] by (auto intro!: syncRun.refused)
next
  case (in_sync y)
  have y: "objKind y = k" "objKey y = (tgt, name)"
    using doGet_asked [OF assms(1) in_sync(5)] a by simp_all
  let ?z = "keepLastSync E y (upd a y)"
  have "sameFrame y ?z" "upToDate x ?z"
    using upd_upToDate [OF a(1) y(1) a(3)] by (simp_all add: keepLastSync_frame keepLastSync_upToDate)
  then show ?thesis
    using in_sync y a assms keepLastSync_kept by (auto intro!: syncRun.in_sync [where z = ?z])
next
  case (updated y q)
  have y: "objKind y = k" "objKey y = (tgt, name)"
    using doGet_asked [OF assms(1) updated(5)] a by simp_all
  let ?z = "keepLastSync E y (upd a y)"
  have "sameFrame y ?z" "upToDate x ?z"
    using upd_upToDate [OF a(1) y(1) a(3)] by (simp_all add: keepLastSync_frame keepLastSync_upToDate)
  then show ?thesis
    using updated y a assms keepLastSync_kept by (auto intro!: syncRun.updated)
qed

lemma syncCopy_run:
  assumes "getsAsked E" and "syncCopy E k stub srcMeta mk upd src tgt name peers explicit s = (r, s')"
  shows "\<exists>cs. calls s' = calls s @ cs \<and> syncRun E k src tgt name peers explicit cs r"
proof -
  obtain q t where g: "doGet E k (src, name) s = (q, t)" by (metis surj_pair)
  have t: "calls t = calls s @ [CGet k (src, name) q]"
    using g by (auto simp: doGet_def dest: perform_result)
  note unfold = assms(2) [unfolded syncCopy_def g Let_def]
  show ?thesis
  proof (cases q)
    case (Inl e)
    show ?thesis
    proof (cases "isNotFound E e")
      case True
      with unfold Inl have "removeStaleCopy E (stub name tgt) src (typeName k) peers explicit t = (r, s')" by simp
      from removeStaleCopy_run [OF True assms(1) this] t Inl show ?thesis by auto
    next
      case False
      with unfold Inl t show ?thesis by (auto intro!: source_unread)
    qed
  next
    case (Inr x)
    have x: "objKind x = k" "objKey x = (src, name)" using doGet_asked [OF assms(1)] g Inr by (metis fst_conv)+
    show ?thesis
    proof (cases "if \<not> explicit then sourceConflict peers (typeName k) tgt name else None")
      case (Some e)
      with unfold Inr t show ?thesis by (auto intro!: claimed split: if_splits)
    next
      case None
      obtain m u where c: "copyLabelsAndAnnotations E (srcMeta x) (objMeta (mk name tgt x)) t = (m, u)"
        by (metis surj_pair)
      then have m: "m = fst (copyLabelsAndAnnotations E (srcMeta x) (objMeta (mk name tgt x)) t)"
        and u: "calls u = calls t"
        using copyLabelsAndAnnotations_frame(3) [of E "srcMeta x" "objMeta (mk name tgt x)" t] by simp_all
      have run: "createOrUpdateResource E (fresh name tgt x m) (typeName k)
          (copyConflictGuard peers (typeName k) src explicit) upd u = (r, s')"
        using unfold Inr None c by (simp add: fresh_def)
      have free: "explicit \<or> sourceConflict peers (typeName k) tgt name = None"
        using None by (auto split: if_splits)
      obtain cs where "calls s' = calls u @ cs"
        and "syncRun E k src tgt name peers explicit (CGet k (src, name) (Inr x) # cs) r"
        using createOrUpdate_run [OF assms(1) x free fresh_upToDate(2,3,1) [OF x(1) m] run] by blast
      with t u Inr show ?thesis by (intro exI conjI) auto
    qed
  qed
qed

end

interpretation sec: copy_kind KSecret secretStub "\<lambda>x. secMeta (asSecret x)"
  "\<lambda>name ns x. ObjSecret (newSecret name ns (asSecret x))" updateSecret
proof unfold_locales
  fix name tgt :: string and x a y :: obj
  show "objKind (secretStub name tgt) = KSecret \<and> objKey (secretStub name tgt) = (tgt, name)" by simp
  show "objKind x = KSecret \<Longrightarrow> secMeta (asSecret x) = objMeta x" by (cases x) simp_all
  show "objKind x = KSecret \<Longrightarrow> payload (ObjSecret (newSecret name tgt (asSecret x))) = copiedPayload x"
    by (cases x) (simp_all add: newSecret_def)
  assume "objKind a = KSecret" and "objKind y = KSecret"
  then obtain b c where [simp]: "a = ObjSecret b" "y = ObjSecret c" by (cases a; cases y) auto
  show "objMeta (updateSecret a y) = (objMeta y)\<lparr>labels := getLabels a, annotations := getAnnotations a\<rparr>"
    by (simp add: getLabels_def getAnnotations_def)
  show "payload (updateSecret a y) = payload a" by simp
  show "objKind (updateSecret a y) = KSecret \<and> immutableFlag (updateSecret a y) = immutableFlag y" by simp
qed (simp_all add: newSecret_def)

interpretation cm: copy_kind KConfigMap configMapStub "\<lambda>x. cmMeta (asConfigMap x)"
  "\<lambda>name ns x. ObjConfigMap (newConfigMap name ns (asConfigMap x))" updateConfigMap
proof unfold_locales
  fix name tgt :: string and x a y :: obj
  show "objKind (configMapStub name tgt) = KConfigMap \<and> objKey (configMapStub name tgt) = (tgt, name)" by simp
  show "objKind x = KConfigMap \<Longrightarrow> cmMeta (asConfigMap x) = objMeta x" by (cases x) simp_all
  show "objKind x = KConfigMap \<Longrightarrow> payload (ObjConfigMap (newConfigMap name tgt (asConfigMap x))) = copiedPayload x"
    by (cases x) (simp_all add: newConfigMap_def)
  assume "objKind a = KConfigMap" and "objKind y = KConfigMap"
  then obtain b c where [simp]: "a = ObjConfigMap b" "y = ObjConfigMap c" by (cases a; cases y) auto
  show "objMeta (updateConfigMap a y) = (objMeta y)\<lparr>labels := getLabels a, annotations := getAnnotations a\<rparr>"
    by (simp add: getLabels_def getAnnotations_def)
  show "payload (updateConfigMap a y) = payload a" by simp
  show "objKind (updateConfigMap a y) = KConfigMap \<and> immutableFlag (updateConfigMap a y) = immutableFlag y" by simp
qed (simp_all add: newConfigMap_def)

lemma syncSecret_eq:
  "syncSecret E = syncCopy E KSecret secretStub (\<lambda>x. secMeta (asSecret x))
     (\<lambda>name ns x. ObjSecret (newSecret name ns (asSecret x))) updateSecret"
  by (intro ext) (simp only: syncSecret_def syncCopy_def Let_def typeName.simps objMeta.simps setMeta.simps)

lemma syncConfigMap_eq:
  "syncConfigMap E = syncCopy E KConfigMap configMapStub (\<lambda>x. cmMeta (asConfigMap x))
     (\<lambda>name ns x. ObjConfigMap (newConfigMap name ns (asConfigMap x))) updateConfigMap"
  by (intro ext) (simp only: syncConfigMap_def syncCopy_def Let_def typeName.simps objMeta.simps setMeta.simps)

lemmas syncSecret_run = sec.syncCopy_run [folded syncSecret_eq]
lemmas syncConfigMap_run = cm.syncCopy_run [folded syncConfigMap_eq]

section \<open>Either kind\<close>

definition syncKind ::
    "'w env \<Rightarrow> kind \<Rightarrow> string \<Rightarrow> string \<Rightarrow> string \<Rightarrow> namespaceSync list \<Rightarrow> bool \<Rightarrow> 'w st \<Rightarrow> goerr option \<times> 'w st" where
  "syncKind E k = (case k of KSecret \<Rightarrow> syncSecret E | KConfigMap \<Rightarrow> syncConfigMap E)"

lemma syncKind_run:
  assumes "getsAsked E" and "syncKind E k src tgt name peers explicit s = (r, s')"
  shows "\<exists>cs. calls s' = calls s @ cs \<and> syncRun E k src tgt name peers explicit cs r"
  using assms syncSecret_run syncConfigMap_run by (cases k) (auto simp: syncKind_def)

section \<open>When a sync writes\<close>

definition sameContents :: "obj \<Rightarrow> obj \<Rightarrow> bool" where
  "sameContents a b \<longleftrightarrow> payloadEntries (payload a) = payloadEntries (payload b) \<and>
     mapEntries (getLabels a) = mapEntries (getLabels b) \<and>
     mapEntries (getAnnotations a) = mapEntries (getAnnotations b)"

definition semanticEquality :: "'w env \<Rightarrow> bool" where
  "semanticEquality E \<longleftrightarrow> (\<forall>a b. sameFrame a b \<longrightarrow> semDeepEqual E a b = sameContents a b)"

lemma upToDate_contents: "sameContents y z \<Longrightarrow> upToDate x y = upToDate x z"
  by (simp add: sameContents_def upToDate_def mapLookup_entries)

lemma upToDate_unique:
  assumes "upToDate x y" and "upToDate x z"
  shows "payloadEntries (payload y) = payloadEntries (payload z)"
    and "mapEntries (getLabels y) = mapEntries (getLabels z)"
    and "k \<noteq> AnnotationLastSync \<Longrightarrow> mapLookup (getAnnotations y) k = mapLookup (getAnnotations z) k"
  using assms by (auto simp: upToDate_def mapLookup_entries [symmetric] intro!: fmap_ext)

lemma equalIgnoring_iff:
  assumes "semanticEquality E" and "sameFrame y z"
  shows "equalIgnoringLabelsAndAnnotations E y z \<longleftrightarrow> payloadEntries (payload y) = payloadEntries (payload z)"
proof -
  have "sameFrame (setAnnotations None (setLabels None y)) (setAnnotations None (setLabels None z))"
    using assms(2) by (cases y; cases z) (auto simp: sameFrame_def setAnnotations_def setLabels_def)
  with assms(1) show ?thesis
    by (auto simp: semanticEquality_def equalIgnoringLabelsAndAnnotations_def sameContents_def meta_simps
        getLabels_def)
qed

lemma in_sync_iff:
  assumes "semanticEquality E" and "sameFrame y z" and "upToDate x z" and "keptStamp E y z"
  shows "semDeepEqual E y z \<longleftrightarrow> upToDate x y"
proof
  show "semDeepEqual E y z \<Longrightarrow> upToDate x y"
    using assms upToDate_contents by (auto simp: semanticEquality_def)
next
  assume y: "upToDate x y"
  note u = upToDate_unique [OF y assms(3)]
  have "mapLookup (getAnnotations y) AnnotationLastSync = mapLookup (getAnnotations z) AnnotationLastSync"
    using y assms(4) equalIgnoring_iff [OF assms(1,2)] u(1) by (auto simp: keptStamp_def upToDate_def)
  with u(3) have "mapEntries (getAnnotations y) = mapEntries (getAnnotations z)"
    by (intro fmap_ext) (metis mapLookup_entries)
  with u assms show "semDeepEqual E y z" by (simp add: semanticEquality_def sameContents_def)
qed

inductive_cases syncRun_read_both:
  "syncRun E k src tgt name peers explicit (CGet k (src, name) (Inr x) # CGet k (tgt, name) (Inr y) # cs) r"

lemma syncRun_writes_iff:
  assumes "semanticEquality E"
    and "syncRun E k src tgt name peers explicit (CGet k (src, name) (Inr x) # CGet k (tgt, name) (Inr y) # cs) r"
    and "copyConflictGuard peers (typeName k) src explicit y = None"
  shows "if upToDate x y then cs = [] \<and> r = None
    else \<exists>z q. cs = [CUpdate z q] \<and> upToDate x z \<and> sameFrame y z \<and> r = updateError q"
  using assms(2,3) by (auto elim!: syncRun_read_both simp: in_sync_iff [OF assms(1)])

section \<open>What a sync may write\<close>

text \<open>
  \<open>writeOK E n peers c d\<close>: the write \<open>d\<close>, right after the call \<open>c\<close>, is one a sync of \<open>n\<close> may make given
  its peers. It is at a place \<open>n\<close> syncs; it creates a copy only where \<open>c\<close> found nothing, overwrites what
  \<open>c\<close> read only if the policy allows it, keeping its resource version, and deletes what \<open>c\<close> read only if
  that was its own copy; and unless the namespace is listed, no peer reads that object as its source.
\<close>

definition placeOK :: "namespaceSync \<Rightarrow> namespaceSync list \<Rightarrow> kind \<Rightarrow> key \<Rightarrow> bool" where
  "placeOK n peers k key \<longleftrightarrow>
     syncsInto (typeName k) (SourceNamespace (Spec n)) (fst key) (snd key) n \<and>
     (listsExplicitly (fst key) n \<or> \<not> (\<exists>p \<in> set peers. readsAsSource (typeName k) (fst key) (snd key) p))"

fun writeOK :: "'w env \<Rightarrow> namespaceSync \<Rightarrow> namespaceSync list \<Rightarrow> call \<Rightarrow> call \<Rightarrow> bool" where
  "writeOK E n peers c (CCreate z q) =
     (placeOK n peers (objKind z) (objKey z) \<and> isManagedCopy z (SourceNamespace (Spec n)) \<and>
      (\<exists>e. c = CGet (objKind z) (objKey z) (Inl e) \<and> isNotFound E e))"
| "writeOK E n peers c (CUpdate z q) =
     (placeOK n peers (objKind z) (objKey z) \<and> isManagedCopy z (SourceNamespace (Spec n)) \<and>
      (\<exists>y. c = CGet (objKind z) (objKey z) (Inr y) \<and> sameFrame y z \<and>
         overwriteAllowed (set peers) (typeName (objKind z)) (SourceNamespace (Spec n))
           (listsExplicitly (fst (objKey z)) n) y))"
| "writeOK E n peers c (CDelete y uid rv q) =
     (isManagedCopy y (SourceNamespace (Spec n)) \<and> uid = metaUID (objMeta y) \<and> rv = resourceVersion (objMeta y) \<and>
      (\<exists>k key. placeOK n peers k key \<and> (c = CGet k key (Inr y) \<or> c = CRead k key (Inr y))))"
| "writeOK E n peers c d = False"

lemma upToDate_managed: "upToDate x z \<Longrightarrow> getName x = getName z \<Longrightarrow> isManagedCopy z (getNamespace x)"
  by (auto simp: upToDate_def isManagedCopy_def mapIndex_def)

lemma sameFrame_place: "sameFrame y z \<Longrightarrow> objKey z = objKey y \<and> objKind z = objKind y"
  by (cases "objMeta y"; cases "objMeta z") (auto simp: sameFrame_def objKey_def getNamespace_def getName_def)

lemma syncRun_writeOK:
  assumes run: "syncRun E k (SourceNamespace (Spec n)) tgt name peers (listsExplicitly tgt n) cs r"
    and "syncsInto (typeName k) (SourceNamespace (Spec n)) tgt name n"
  shows "precededBy isWrite (writeOK E n peers) cs"
  using run
proof cases
  case (stale_deleted e y rd d q)
  then show ?thesis using assms(2)
    by (auto simp: isRead_def placeOK_def intro!: precededBy_Cons precededBy_pair)
next
  case (created x e z)
  then show ?thesis using assms(2) upToDate_managed [of x z]
    by (auto simp: placeOK_def sourceConflict_None objKey_def intro!: precededBy_Cons precededBy_pair)
next
  case (updated x y z q)
  then show ?thesis using assms(2) upToDate_managed [of x z] sameFrame_place [of y z]
    by (auto simp: placeOK_def sourceConflict_None objKey_def guard_iff_policy intro!: precededBy_Cons precededBy_pair)
qed (auto simp: isRead_def intro!: precededBy_none)

section \<open>Runs of a list\<close>

inductive listRun :: "('a \<Rightarrow> call list \<Rightarrow> goerr option \<Rightarrow> bool) \<Rightarrow> 'a list \<Rightarrow> call list \<Rightarrow> goerr list \<Rightarrow> goerr option \<Rightarrow> bool"
  for R :: "'a \<Rightarrow> call list \<Rightarrow> goerr option \<Rightarrow> bool" where
  finished: "listRun R [] [] [] None"
| synced: "R x cs None \<Longrightarrow> listRun R xs ds conf e \<Longrightarrow> listRun R (x # xs) (cs @ ds) conf e"
| skipped: "R x cs (Some err) \<Longrightarrow> errorsIs err errSyncConflict \<Longrightarrow> listRun R xs ds conf e \<Longrightarrow>
     listRun R (x # xs) (cs @ ds) (err # conf) e"
| stopped: "R x cs (Some err) \<Longrightarrow> \<not> errorsIs err errSyncConflict \<Longrightarrow> listRun R (x # xs) cs [] (Some err)"

lemma listRun_append:
  "listRun R xs cs conf None \<Longrightarrow> listRun R ys ds conf' e \<Longrightarrow> listRun R (xs @ ys) (cs @ ds) (conf @ conf') e"
  by (induction xs cs conf "None :: goerr option" rule: listRun.induct) (auto intro: listRun.intros)

lemma listRun_stop: "listRun R xs cs conf (Some e) \<Longrightarrow> listRun R (xs @ ys) cs conf (Some e)"
  by (induction xs cs conf "Some e" rule: listRun.induct) (auto intro: listRun.intros)

lemma listRun_map: "listRun (\<lambda>x. R (f x)) xs cs conf e \<Longrightarrow> listRun R (map f xs) cs conf e"
  by (induction rule: listRun.induct) (auto intro: listRun.intros)

lemma syncResourceList_run:
  assumes "\<And>name s r s'. syncFn name s = (r, s') \<Longrightarrow> \<exists>cs. calls s' = calls s @ cs \<and> R name cs r"
    and "syncResourceList names flt syncFn s = ((conf, e), s')"
  shows "\<exists>cs. calls s' = calls s @ cs \<and> listRun R (filter (\<lambda>name. shouldSyncResource name flt) names) cs conf e"
  using assms(2)
proof (induction names arbitrary: s conf)
  case Nil
  then show ?case by (auto intro: listRun.finished)
next
  case (Cons name names)
  show ?case
  proof (cases "shouldSyncResource name flt")
    case False
    then have "flt \<noteq> None" by (cases flt) auto
    with False Cons show ?thesis by simp
  next
    case True
    obtain r t where f: "syncFn name s = (r, t)" by (metis surj_pair)
    obtain cs where cs: "calls t = calls s @ cs" "R name cs r" using assms(1) [OF f] by blast
    note unfold = Cons.prems [simplified f syncResourceList.simps True]
    consider (ok) "r = None" | (conflict) err where "r = Some err" "errorsIs err errSyncConflict"
      | (hard) err where "r = Some err" "\<not> errorsIs err errSyncConflict" by (cases r) auto
    then show ?thesis
    proof cases
      case ok
      with unfold have "syncResourceList names flt syncFn t = ((conf, e), s')" by simp
      from Cons.IH [OF this] cs ok True show ?thesis by (auto intro: listRun.synced)
    next
      case conflict
      with unfold obtain conf' where "conf = err # conf'" "syncResourceList names flt syncFn t = ((conf', e), s')"
        by (auto split: prod.splits)
      with Cons.IH [OF this(2)] cs conflict True show ?thesis by (auto intro: listRun.skipped)
    next
      case hard
      with unfold cs True show ?thesis by (auto intro: listRun.stopped)
    qed
  qed
qed

text \<open>What \<open>syncResources\<close> works through: every name it lists and its filter admits, Secrets first.\<close>

definition specFilter :: "kind \<Rightarrow> namespaceSync \<Rightarrow> resourceFilter option" where
  "specFilter k n = (case ResourceFilters (Spec n) of None \<Rightarrow> None
     | Some f \<Rightarrow> (case k of KSecret \<Rightarrow> filterSecrets f | KConfigMap \<Rightarrow> filterConfigMaps f))"

definition worklist :: "namespaceSync \<Rightarrow> (kind \<times> string) list" where
  "worklist n = concat (map (\<lambda>k. map (Pair k) (filter (\<lambda>name. shouldSyncResource name (specFilter k n)) (specNames k n)))
     [KSecret, KConfigMap])"

definition resourceRun :: "'w env \<Rightarrow> namespaceSync \<Rightarrow> string \<Rightarrow> namespaceSync list \<Rightarrow> kind \<times> string \<Rightarrow> call list \<Rightarrow> goerr option \<Rightarrow> bool" where
  "resourceRun E n tgt peers item cs r =
     syncRun E (fst item) (SourceNamespace (Spec n)) tgt (snd item) peers (listsExplicitly tgt n) cs r"

lemma worklist_iff: "(k, name) \<in> set (worklist n) \<longleftrightarrow> syncsName n (typeName k) name"
  by (cases k) (auto simp: worklist_def syncsName_def specFilter_def Let_def split: option.splits)

lemma syncResources_run:
  assumes "getsAsked E" and "syncResources E n tgt peers s = ((conf, e), s')"
  shows "\<exists>cs. calls s' = calls s @ cs \<and> listRun (resourceRun E n tgt peers) (worklist n) cs conf e"
proof -
  define fs where "fs = specFilter KSecret n"
  define fc where "fc = specFilter KConfigMap n"
  let ?src = "SourceNamespace (Spec n)" and ?ex = "contains (TargetNamespaces (Spec n)) tgt"
  have filters: "(case ResourceFilters (Spec n) of None \<Rightarrow> (None, None) | Some f \<Rightarrow> (filterSecrets f, filterConfigMaps f)) = (fs, fc)"
    by (simp add: fs_def fc_def specFilter_def split: option.split)
  have explicit: "?ex = listsExplicitly tgt n" by (simp add: listsExplicitly_def)
  let ?run = "\<lambda>k name. resourceRun E n tgt peers (k, name)"
  obtain c1 e1 t where 1: "syncResourceList (SecretName (Spec n)) fs
      (\<lambda>name. syncSecret E ?src tgt name peers ?ex) s = ((c1, e1), t)" by (metis surj_pair)
  have "\<exists>cs. calls t = calls s @ cs \<and>
      listRun (?run KSecret) (filter (\<lambda>name. shouldSyncResource name fs) (SecretName (Spec n))) cs c1 e1"
    using syncSecret_run [OF assms(1)] by (intro syncResourceList_run [OF _ 1]) (auto simp: resourceRun_def listsExplicitly_def)
  then obtain ds where ds: "calls t = calls s @ ds"
    and run1: "listRun (resourceRun E n tgt peers)
      (map (Pair KSecret) (filter (\<lambda>name. shouldSyncResource name fs) (SecretName (Spec n)))) ds c1 e1"
    using listRun_map by blast
  note unfold = assms(2) [unfolded syncResources_def Let_def filters, simplified 1 prod.case]
  show ?thesis
  proof (cases e1)
    case (Some err)
    with unfold ds listRun_stop [of _ _ ds c1 err] run1 show ?thesis
      by (auto simp: worklist_def fs_def)
  next
    case None
    obtain c2 e2 u where 2: "syncResourceList (ConfigMapName (Spec n)) fc
        (\<lambda>name. syncConfigMap E ?src tgt name peers ?ex) t = ((c2, e2), u)" by (metis surj_pair)
    have "\<exists>cs. calls u = calls t @ cs \<and>
        listRun (?run KConfigMap) (filter (\<lambda>name. shouldSyncResource name fc) (ConfigMapName (Spec n))) cs c2 e2"
      using syncConfigMap_run [OF assms(1)] by (intro syncResourceList_run [OF _ 2]) (auto simp: resourceRun_def listsExplicitly_def)
    then obtain es where es: "calls u = calls t @ es"
      and run2: "listRun (resourceRun E n tgt peers)
        (map (Pair KConfigMap) (filter (\<lambda>name. shouldSyncResource name fc) (ConfigMapName (Spec n)))) es c2 e2"
      using listRun_map by blast
    have "conf = c1 @ c2" "e = e2" "s' = u" using unfold None 2 by auto
    with ds es listRun_append [OF run1 [unfolded None] run2] show ?thesis
      by (auto simp: worklist_def fs_def fc_def)
  qed
qed

end
