(* ===== verification/Status.thy ===== *)
theory Status
  imports Cleanup
begin

text \<open>
  \<^verbatim>\<open>internal/controller/utils.go\<close>: validating a spec and writing the status of a NamespaceSync, whose
  Ready condition is specified by \<open>readyOutcome\<close>, over what happened in which namespace.
\<close>

section \<open>Validation\<close>

definition validateResourceFilter :: "'w env \<Rightarrow> string \<Rightarrow> resourceFilter option \<Rightarrow> goerr option" where
  "validateResourceFilter E field flt = (case flt of
     None \<Rightarrow> None
   | Some f \<Rightarrow>
      (case firstInvalid pathMatch (Include f @ filterExclude f) of
         None \<Rightarrow> None
       | Some (pattern, err) \<Rightarrow> Some (wrapBack
           (''invalid pattern '' @ goQuote (unicodePrint E) pattern @ '' in resourceFilters.'' @ field) err)))"

definition validateNamespaceSync :: "'w env \<Rightarrow> namespaceSync \<Rightarrow> goerr option" where
  "validateNamespaceSync E n =
     (if SourceNamespace (Spec n) = [] then Some (ErrNew ''sourceNamespace is required'')
      else if length (SecretName (Spec n)) = 0 \<and> length (ConfigMapName (Spec n)) = 0
      then Some (ErrNew ''at least one secret or configmap must be specified'')
      else (case ResourceFilters (Spec n) of
              None \<Rightarrow> None
            | Some filters \<Rightarrow>
               (case validateResourceFilter E ''secrets'' (filterSecrets filters) of
                  Some err \<Rightarrow> Some err
                | None \<Rightarrow>
                   (case validateResourceFilter E ''configMaps'' (filterConfigMaps filters) of
                      Some err \<Rightarrow> Some err
                    | None \<Rightarrow> None))))"

section \<open>The Ready condition\<close>

definition mapLen :: "(string, string) fmap \<Rightarrow> nat" where
  "mapLen m = fcard (fmdom m)"

text \<open>
  The \<open>switch\<close> of \<open>updateStatus\<close>: \<open>gen\<close> is \<open>latest.Generation\<close>, \<open>now\<close> the time the chosen case reads.
\<close>

definition readyCondition :: "int \<Rightarrow> goTime \<Rightarrow> string list \<Rightarrow> (string, string) fmap \<Rightarrow> string list \<Rightarrow> condition" where
  "readyCondition gen now synced failed conflicted =
     (let failures = int (mapLen failed) - int (length conflicted);
          skipped = (if length conflicted > 0
            then '', skipped conflicting objects in '' @ showInt (int (length conflicted)) else []);
          ready = (\<lambda>status reason message. \<lparr>condType = ''Ready'', condStatus = status, condObservedGeneration = gen,
            condLastTransitionTime = now, condReason = reason, condMessage = message\<rparr>) in
      if mapLen failed = 0 \<and> length synced > 0 then
        ready conditionTrue ''SyncComplete''
          (''Successfully synced to '' @ showInt (int (length synced)) @ '' namespaces'')
      else if mapLen failed > 0 \<and> length conflicted = mapLen failed then
        ready conditionTrue ''SyncConflict''
          (''Synced to '' @ showInt (int (length synced)) @ '' namespaces, and to ''
            @ showInt (int (length conflicted)) @ '' more except for conflicting objects'')
      else if mapLen failed > 0 \<and> length synced > 0 then
        ready conditionTrue ''PartialSync''
          (''Synced to '' @ showInt (int (length synced)) @ '' namespaces, failed to sync to ''
            @ showInt failures @ '' namespaces'' @ skipped)
      else if length synced = 0 \<and> mapLen failed > 0 then
        ready conditionFalse ''SyncFailed''
          (''Failed to sync to '' @ showInt failures @ '' namespaces'' @ skipped)
      else ready conditionTrue ''SyncComplete'' ''No target namespaces to sync'')"

section \<open>Writing the status\<close>

text \<open>The function \<open>updateStatus\<close> retries: read the latest version, set its status, write it.\<close>

definition updateStatusOnce ::
    "'w env \<Rightarrow> namespaceSync \<Rightarrow> string list \<Rightarrow> (string, string) fmap \<Rightarrow> string list \<Rightarrow> 'w st \<Rightarrow> goerr option \<times> 'w st" where
  "updateStatusOnce E n synced failed conflicted s =
     (case doGetSync E (syncKey n) s of
        (Inl err, s) \<Rightarrow> (Some err, s)
      | (Inr latest, s) \<Rightarrow>
          (let gen = generation (nsMeta latest);
               (syncTime, s) = timeNow E s;
               status = (Status latest)\<lparr>LastSyncTime := syncTime, SyncedNamespaces := synced,
                 FailedNamespaces := Some failed, ObservedGeneration := gen\<rparr>;
               (now, s) = timeNow E s;
               status = status\<lparr>Conditions := setStatusCondition E (Conditions status)
                 (readyCondition gen now synced failed conflicted)\<rparr>
           in doUpdateStatus E (latest\<lparr>Status := status\<rparr>) s))"

definition updateStatus ::
    "'w env \<Rightarrow> namespaceSync \<Rightarrow> string list \<Rightarrow> (string, string) fmap \<Rightarrow> string list \<Rightarrow> 'w st \<Rightarrow> goerr option \<times> 'w st" where
  "updateStatus E n synced failed conflicted s =
     (if deletionTimestamp (nsMeta n) \<noteq> None then (None, s)
      else retryOnConflict E (updateStatusOnce E n synced failed conflicted) s)"

definition updateInvalidSpecStatusOnce ::
    "'w env \<Rightarrow> namespaceSync \<Rightarrow> goerr \<Rightarrow> 'w st \<Rightarrow> goerr option \<times> 'w st" where
  "updateInvalidSpecStatusOnce E n validationErr s =
     (case doGetSync E (syncKey n) s of
        (Inl err, s) \<Rightarrow> (Some err, s)
      | (Inr latest, s) \<Rightarrow>
          (let gen = generation (nsMeta n);
               status = (Status latest)\<lparr>SyncedNamespaces := [], FailedNamespaces := None, ObservedGeneration := gen\<rparr>;
               (now, s) = timeNow E s;
               status = status\<lparr>Conditions := setStatusCondition E (Conditions status)
                 \<lparr>condType = ''Ready'', condStatus = conditionFalse, condObservedGeneration = gen,
                  condLastTransitionTime = now, condReason = ''InvalidSpec'', condMessage = errorMsg validationErr\<rparr>\<rparr>
           in doUpdateStatus E (latest\<lparr>Status := status\<rparr>) s))"

definition updateInvalidSpecStatus ::
    "'w env \<Rightarrow> namespaceSync \<Rightarrow> goerr \<Rightarrow> 'w st \<Rightarrow> goerr option \<times> 'w st" where
  "updateInvalidSpecStatus E n validationErr s =
     retryOnConflict E (updateInvalidSpecStatusOnce E n validationErr) s"

section \<open>Valid specs\<close>

definition filterPatterns :: "resourceFilter option \<Rightarrow> string list" where
  "filterPatterns flt = (case flt of None \<Rightarrow> [] | Some f \<Rightarrow> Include f @ filterExclude f)"

definition specPatterns :: "namespaceSync \<Rightarrow> string list" where
  "specPatterns n = (case ResourceFilters (Spec n) of None \<Rightarrow> []
     | Some f \<Rightarrow> filterPatterns (filterSecrets f) @ filterPatterns (filterConfigMaps f))"

definition validSpec :: "namespaceSync \<Rightarrow> bool" where
  "validSpec n \<longleftrightarrow> SourceNamespace (Spec n) \<noteq> [] \<and> (SecretName (Spec n) \<noteq> [] \<or> ConfigMapName (Spec n) \<noteq> []) \<and>
     (\<forall>p \<in> set (specPatterns n). validPattern p)"

lemma validateResourceFilter_None:
  "validateResourceFilter E field flt = None \<longleftrightarrow> (\<forall>p \<in> set (filterPatterns flt). validPattern p)"
proof (cases flt)
  case (Some f)
  with pm.firstInvalid_None [of "Include f @ filterExclude f"] show ?thesis
    by (cases "firstInvalid pathMatch (Include f @ filterExclude f)")
      (auto simp: validateResourceFilter_def filterPatterns_def)
qed (simp add: validateResourceFilter_def filterPatterns_def)

lemma validateResourceFilter_Some:
  "validateResourceFilter E field flt = Some e \<Longrightarrow>
     \<exists>p \<in> set (filterPatterns flt). \<not> validPattern p \<and>
       errorMsg e = ''invalid pattern '' @ goQuote (unicodePrint E) p @ '' in resourceFilters.'' @ field @ '': syntax error in pattern''
       \<and> errorsIs e errBadPattern"
  by (auto simp: validateResourceFilter_def filterPatterns_def wrapBack_def pathMatch_error errBadPattern_def
      dest!: pm.firstInvalid_Some split: option.splits prod.splits)

lemma validateNamespaceSync_None: "validateNamespaceSync E n = None \<longleftrightarrow> validSpec n"
proof -
  have bad: "\<not> (\<forall>p \<in> set (filterPatterns flt). validPattern p)" if "validateResourceFilter E field flt = Some e" for field flt e
    using that validateResourceFilter_None [of E field flt] by simp
  show ?thesis
    by (auto simp: validateNamespaceSync_def validSpec_def specPatterns_def validateResourceFilter_None
        split: option.splits dest: bad)
qed

text \<open>After validation no pattern the sync meets fails, so a filter means what it says.\<close>

lemma valid_filters:
  assumes "validSpec n" and "ResourceFilters (Spec n) = Some f"
    and "filterSecrets f = Some g \<or> filterConfigMaps f = Some g" and "plainName name"
  shows "shouldSyncResource name (Some g) \<longleftrightarrow>
    (\<forall>p \<in> set (filterExclude g). \<not> globs p name) \<and> (Include g = [] \<or> (\<exists>p \<in> set (Include g). globs p name))"
  using assms
  by (auto simp: shouldSyncResource_iff filterAdmits_def validSpec_def specPatterns_def filterPatterns_def)

section \<open>What the Ready condition says\<close>

text \<open>
  \<open>tallies\<close> is what the reconciler passes: every conflicted namespace is recorded once, and among the
  failed ones. \<open>readyOutcome\<close> is the condition's status and reason by what happened: nothing failed;
  only conflicts; some namespace failed for another reason, with or without a synced one.
\<close>

definition tallies :: "(string, string) fmap \<Rightarrow> string list \<Rightarrow> bool" where
  "tallies failed conflicted \<longleftrightarrow> distinct conflicted \<and> set conflicted \<subseteq> fmdom' failed"

definition readyOutcome :: "string list \<Rightarrow> (string, string) fmap \<Rightarrow> string list \<Rightarrow> string \<times> string" where
  "readyOutcome synced failed conflicted =
     (if failed = fmempty then (conditionTrue, ''SyncComplete'')
      else if fmdom' failed = set conflicted then (conditionTrue, ''SyncConflict'')
      else if synced \<noteq> [] then (conditionTrue, ''PartialSync'')
      else (conditionFalse, ''SyncFailed''))"

lemma mapLen_card: "mapLen m = card (fmdom' m)"
  by (simp add: mapLen_def fcard.rep_eq fmdom'_alt_def)

lemma mapLen_0 [simp]: "mapLen m = 0 \<longleftrightarrow> m = fmempty"
proof
  assume "mapLen m = 0"
  then have "fmdom' m = {}" by (simp add: mapLen_card)
  then show "m = fmempty" by (intro fmap_ext) (metis empty_iff fmdom'_notD fmempty_lookup)
qed (simp add: mapLen_def)

lemma mapLen_empty [simp]: "mapLen fmempty = 0"
  by simp

lemma tallies_all: "tallies failed conflicted \<Longrightarrow> length conflicted = mapLen failed \<longleftrightarrow> fmdom' failed = set conflicted"
  unfolding tallies_def mapLen_card
  by (metis card_subset_eq distinct_card finite_fmdom')

lemma tallies_failures:
  "tallies failed conflicted \<Longrightarrow>
     int (mapLen failed) - int (length conflicted) = int (card (fmdom' failed - set conflicted))"
  unfolding tallies_def mapLen_card
  by (metis (no_types) List.finite_set card_Diff_subset card_mono distinct_card finite_fmdom' of_nat_diff)

lemma readyCondition_outcome:
  assumes "tallies failed conflicted"
  shows "(condStatus (readyCondition gen now synced failed conflicted),
          condReason (readyCondition gen now synced failed conflicted)) = readyOutcome synced failed conflicted"
proof -
  have "mapLen failed > 0 \<longleftrightarrow> failed \<noteq> fmempty" using mapLen_0 [of failed] by linarith
  then show ?thesis
    using tallies_all [OF assms]
    by (cases "failed = fmempty"; cases "synced = []") (auto simp: readyCondition_def Let_def readyOutcome_def)
qed

section \<open>Status writes\<close>

text \<open>
  One attempt reads the NamespaceSync at \<open>key\<close> and, if that worked, writes the status of what it read:
  \<open>P latest m\<close> relates the version read to the version written.
\<close>

definition statusRun ::
    "key \<Rightarrow> (namespaceSync \<Rightarrow> namespaceSync \<Rightarrow> bool) \<Rightarrow> call list \<Rightarrow> goerr option \<Rightarrow> bool" where
  "statusRun key P cs r \<longleftrightarrow>
     (\<exists>e. cs = [CGetSync key (Inl e)] \<and> r = Some e) \<or>
     (\<exists>latest m. cs = [CGetSync key (Inr latest), CUpdateStatus m r] \<and>
        nsMeta m = nsMeta latest \<and> Spec m = Spec latest \<and> P latest m)"

definition reports :: "'w env \<Rightarrow> string list \<Rightarrow> (string, string) fmap \<Rightarrow> string list \<Rightarrow> namespaceSync \<Rightarrow> namespaceSync \<Rightarrow> bool" where
  "reports E synced failed conflicted latest m \<longleftrightarrow>
     SyncedNamespaces (Status m) = synced \<and> FailedNamespaces (Status m) = Some failed \<and>
     ObservedGeneration (Status m) = generation (nsMeta latest) \<and>
     (\<exists>c. Conditions (Status m) = setStatusCondition E (Conditions (Status latest)) c \<and> condType c = ''Ready'' \<and>
        condObservedGeneration c = generation (nsMeta latest) \<and>
        (condStatus c, condReason c) = readyOutcome synced failed conflicted)"

definition reportsInvalid :: "'w env \<Rightarrow> namespaceSync \<Rightarrow> goerr \<Rightarrow> namespaceSync \<Rightarrow> namespaceSync \<Rightarrow> bool" where
  "reportsInvalid E n err latest m \<longleftrightarrow>
     SyncedNamespaces (Status m) = [] \<and> FailedNamespaces (Status m) = None \<and>
     ObservedGeneration (Status m) = generation (nsMeta n) \<and>
     (\<exists>c. Conditions (Status m) = setStatusCondition E (Conditions (Status latest)) c \<and> condType c = ''Ready'' \<and>
        condObservedGeneration c = generation (nsMeta n) \<and>
        condStatus c = conditionFalse \<and> condReason c = ''InvalidSpec'' \<and> condMessage c = errorMsg err)"

lemma doGetSync_calls: "doGetSync E key s = (r, t) \<Longrightarrow> calls t = calls s @ [CGetSync key r]"
  by (auto simp: doGetSync_def dest: perform_result)

lemma doUpdateStatus_calls: "doUpdateStatus E n s = (r, t) \<Longrightarrow> calls t = calls s @ [CUpdateStatus n r]"
  by (auto simp: doUpdateStatus_def dest: perform_result)

lemma timeNow_calls: "timeNow E s = (now, t) \<Longrightarrow> calls t = calls s"
  using timeNow_frame(1) [of E s] by simp

lemma readyCondition_simps [simp]:
  "condType (readyCondition gen now synced failed conflicted) = ''Ready''"
  "condObservedGeneration (readyCondition gen now synced failed conflicted) = gen"
  by (simp_all add: readyCondition_def Let_def)

lemma updateStatusOnce_run:
  assumes "tallies failed conflicted" and "updateStatusOnce E n synced failed conflicted s = (r, s')"
  shows "\<exists>cs. calls s' = calls s @ cs \<and> statusRun (syncKey n) (reports E synced failed conflicted) cs r"
proof -
  obtain q t where g: "doGetSync E (syncKey n) s = (q, t)" by (metis surj_pair)
  note unfold = assms(2) [unfolded updateStatusOnce_def g]
  show ?thesis
  proof (cases q)
    case (Inl e)
    with unfold doGetSync_calls [OF g] show ?thesis by (auto simp: statusRun_def)
  next
    case (Inr latest)
    obtain t1 u where 1: "timeNow E t = (t1, u)" by (metis surj_pair)
    obtain t2 v where 2: "timeNow E u = (t2, v)" by (metis surj_pair)
    define m where "m = latest\<lparr>Status := (Status latest)\<lparr>LastSyncTime := t1, SyncedNamespaces := synced,
        FailedNamespaces := Some failed, ObservedGeneration := generation (nsMeta latest),
        Conditions := setStatusCondition E (Conditions (Status latest))
          (readyCondition (generation (nsMeta latest)) t2 synced failed conflicted)\<rparr>\<rparr>"
    have upd: "doUpdateStatus E m v = (r, s')"
      using unfold Inr 1 2 by (simp add: Let_def m_def)
    have "reports E synced failed conflicted latest m"
      using readyCondition_outcome [OF assms(1)]
      by (auto simp: reports_def m_def intro!: exI [of _ "readyCondition (generation (nsMeta latest)) t2 synced failed conflicted"])
    moreover have "nsMeta m = nsMeta latest" "Spec m = Spec latest" by (simp_all add: m_def)
    ultimately show ?thesis
      using doGetSync_calls [OF g] timeNow_calls [OF 1] timeNow_calls [OF 2] doUpdateStatus_calls [OF upd] Inr
      by (auto simp: statusRun_def)
  qed
qed

lemma updateInvalidSpecStatusOnce_run:
  assumes "updateInvalidSpecStatusOnce E n err s = (r, s')"
  shows "\<exists>cs. calls s' = calls s @ cs \<and> statusRun (syncKey n) (reportsInvalid E n err) cs r"
proof -
  obtain q t where g: "doGetSync E (syncKey n) s = (q, t)" by (metis surj_pair)
  note unfold = assms [unfolded updateInvalidSpecStatusOnce_def g]
  show ?thesis
  proof (cases q)
    case (Inl e)
    with unfold doGetSync_calls [OF g] show ?thesis by (auto simp: statusRun_def)
  next
    case (Inr latest)
    obtain now u where 1: "timeNow E t = (now, u)" by (metis surj_pair)
    define c where "c = \<lparr>condType = ''Ready'', condStatus = conditionFalse, condObservedGeneration = generation (nsMeta n),
        condLastTransitionTime = now, condReason = ''InvalidSpec'', condMessage = errorMsg err\<rparr>"
    define m where "m = latest\<lparr>Status := (Status latest)\<lparr>SyncedNamespaces := [],
        FailedNamespaces := None, ObservedGeneration := generation (nsMeta n),
        Conditions := setStatusCondition E (Conditions (Status latest)) c\<rparr>\<rparr>"
    have upd: "doUpdateStatus E m u = (r, s')"
      using unfold Inr 1 by (simp add: Let_def m_def c_def)
    have "reportsInvalid E n err latest m" by (auto simp: reportsInvalid_def m_def c_def)
    moreover have "nsMeta m = nsMeta latest" "Spec m = Spec latest" by (simp_all add: m_def)
    ultimately show ?thesis
      using doGetSync_calls [OF g] timeNow_calls [OF 1] doUpdateStatus_calls [OF upd] Inr
      by (auto simp: statusRun_def)
  qed
qed

lemma updateStatus_run:
  assumes "retriesRuns E" and "tallies failed conflicted" and "deletionTimestamp (nsMeta n) = None"
    and "updateStatus E n synced failed conflicted s = (r, s')"
  shows "\<exists>cs. calls s' = calls s @ cs \<and> retried (statusRun (syncKey n) (reports E synced failed conflicted)) cs r"
  using assms(3,4) retry_run [OF assms(1) updateStatusOnce_run [OF assms(2)]] by (simp add: updateStatus_def)

lemma updateInvalidSpecStatus_run:
  assumes "retriesRuns E" and "updateInvalidSpecStatus E n err s = (r, s')"
  shows "\<exists>cs. calls s' = calls s @ cs \<and> retried (statusRun (syncKey n) (reportsInvalid E n err)) cs r"
  using assms(2) retry_run [OF assms(1) updateInvalidSpecStatusOnce_run] by (simp add: updateInvalidSpecStatus_def)

end
