(* ===== verification/Controller.thy ===== *)
theory Controller
  imports Sync Status
begin

text \<open>
  \<^verbatim>\<open>internal/controller/namespacesync_controller.go\<close>: one reconcile of a NamespaceSync, from reading it
  to writing its status. \<open>reconcileRun\<close> specifies the calls of a reconcile and its result, in terms of
  the runs of its parts; the safety and reporting properties are read off it.
\<close>

section \<open>The reconciler\<close>

text \<open>\<open>ReconcileInterval\<close> in nanoseconds. It is a variable \<open>main\<close> may set, so the reconciler takes it.\<close>

definition ReconcileInterval :: int where
  "ReconcileInterval = 5 * 60 * 1000000000"

text \<open>The function retried to add the finalizer.\<close>

definition addFinalizerOnce :: "'w env \<Rightarrow> key \<Rightarrow> 'w st \<Rightarrow> goerr option \<times> 'w st" where
  "addFinalizerOnce E key s =
     (case doGetSync E key s of
        (Inl err, s) \<Rightarrow> (Some err, s)
      | (Inr latest, s) \<Rightarrow>
          (if \<not> containsFinalizer E latest finalizerName
           then doUpdateSync E (addFinalizer E latest finalizerName) s
           else (None, s)))"

text \<open>
  \<open>oneLine(errors.Join(...))\<close>. The joined list is never empty where the loop builds it, so the join is
  not nil.
\<close>

definition joinedLine :: "goerr list \<Rightarrow> string" where
  "joinedLine es = (case errorsJoin es of None \<Rightarrow> [] | Some err \<Rightarrow> oneLine err)"

type_synonym tally = "string list \<times> (string, string) fmap \<times> string list"

text \<open>The loop over the namespaces, with \<open>syncedNamespaces\<close>, \<open>failedNamespaces\<close> and \<open>conflicted\<close>.\<close>

fun namespaceLoop ::
    "'w env \<Rightarrow> namespaceSync \<Rightarrow> namespaceSync list \<Rightarrow> string list \<Rightarrow> tally \<Rightarrow> 'w st \<Rightarrow> tally \<times> 'w st" where
  "namespaceLoop E n peers [] acc s = (acc, s)"
| "namespaceLoop E n peers (ns # nss) (synced, failed, conflicted) s =
     (if \<not> shouldSyncToNamespace ns n then namespaceLoop E n peers nss (synced, failed, conflicted) s
      else (case syncResources E n ns peers s of
              ((conflicts, Some err), s) \<Rightarrow>
                namespaceLoop E n peers nss (synced, fmupd ns (joinedLine (conflicts @ [err])) failed, conflicted) s
            | ((conflicts, None), s) \<Rightarrow>
                (if length conflicts > 0
                 then namespaceLoop E n peers nss (synced, fmupd ns (joinedLine conflicts) failed, conflicted @ [ns]) s
                 else namespaceLoop E n peers nss (synced @ [ns], failed, conflicted) s)))"

text \<open>The events at the end of a reconcile.\<close>

definition recordOutcome :: "'w env \<Rightarrow> namespaceSync \<Rightarrow> tally \<Rightarrow> 'w st \<Rightarrow> 'w st" where
  "recordOutcome E n acc s =
     (let (synced, failed, conflicted) = acc;
          s = (if length conflicted > 0
               then recordEvent E n EventTypeWarning ''SyncConflict''
                 (''Skipped objects another owner holds in '' @ showInt (int (length conflicted)) @ '' namespaces (''
                  @ stringsJoin (take (min (length conflicted) 5) conflicted) '', '' @ ''); see status.failedNamespaces'') s
               else s);
          hard = int (mapLen failed) - int (length conflicted);
          s = (if hard > 0
               then recordEvent E n EventTypeWarning ''SyncFailed'' (''Failed to sync to '' @ showInt hard @ '' namespaces'') s
               else s);
          s = (if length synced > 0
               then recordEvent E n EventTypeNormal ''SyncComplete''
                 (''Successfully synced resources to '' @ showInt (int (length synced)) @ '' namespaces'') s
               else s)
      in s)"

text \<open>The part of \<open>Reconcile\<close> that runs once the spec is valid and the finalizer in place.\<close>

definition reconcileSpec :: "'w env \<Rightarrow> int \<Rightarrow> namespaceSync \<Rightarrow> 'w st \<Rightarrow> (int \<times> goerr option) \<times> 'w st" where
  "reconcileSpec E interval n s =
     (case doListNamespaces E s of
        (Inl err, s) \<Rightarrow> ((0, Some err), s)
      | (Inr nss, s) \<Rightarrow>
          (case listPeers E n s of
             (Inl err, s) \<Rightarrow> ((0, Some err), s)
           | (Inr peers, s) \<Rightarrow>
               (let (start, s) = timeNow E s;
                    (acc, s) = namespaceLoop E n peers nss ([], fmempty, []) s;
                    (now, s) = timeNow E s;
                    name = metaName (nsMeta n);
                    s = observeDuration name ''all'' (timeSub now start) s;
                    s = setManaged name ''secret'' (length (SecretName (Spec n))) s;
                    s = setManaged name ''configmap'' (length (ConfigMapName (Spec n))) s;
                    s = recordOutcome E n acc s;
                    (synced, failed, conflicted) = acc
                in case updateStatus E n synced failed conflicted s of
                     (Some err, s) \<Rightarrow> ((0, Some err), s)
                   | (None, s) \<Rightarrow> ((interval, None), s))))"

definition Reconcile :: "'w env \<Rightarrow> int \<Rightarrow> key \<Rightarrow> 'w st \<Rightarrow> (int \<times> goerr option) \<times> 'w st" where
  "Reconcile E interval key s =
     (case doGetSync E key s of
        (Inl err, s) \<Rightarrow> if isNotFound E err then ((0, None), s) else ((0, Some err), s)
      | (Inr n, s) \<Rightarrow>
          (if \<not> timeIsZero E (deletionTimestamp (nsMeta n)) then handleDeletionAndStatus E n s
           else (case validateNamespaceSync E n of
                   Some err \<Rightarrow>
                     (let s = recordEvent E n EventTypeWarning ''ValidationFailed'' (errorMsg err) s;
                          (updateErr, s) = updateInvalidSpecStatus E n err s
                      in ((0, Some (terminalError E err)), s))
                 | None \<Rightarrow>
                     (if \<not> containsFinalizer E n finalizerName
                      then (case retryOnConflict E (addFinalizerOnce E key) s of
                              (Some err, s) \<Rightarrow> ((0, Some err), s)
                            | (None, s) \<Rightarrow> reconcileSpec E interval n s)
                      else reconcileSpec E interval n s))))"

section \<open>Watching NamespaceSyncs\<close>

text \<open>
  The events of a watch, and \<open>namespaceSyncPredicate\<close>: the disjunction of two predicates of
  controller-runtime on them, \<open>GenerationChangedPredicate\<close> and \<open>AnnotationChangedPredicate\<close>.
\<close>

datatype 'x watchEvent = CreateEvent 'x | UpdateEvent 'x 'x | DeleteEvent 'x | GenericEvent 'x

definition namespaceSyncPredicate ::
    "(namespaceSync watchEvent \<Rightarrow> bool) \<Rightarrow> (namespaceSync watchEvent \<Rightarrow> bool) \<Rightarrow> namespaceSync watchEvent \<Rightarrow> bool" where
  "namespaceSyncPredicate generationChanged annotationChanged ev = (generationChanged ev \<or> annotationChanged ev)"

section \<open>The loop over the namespaces\<close>

text \<open>What came of each targeted namespace, in order: its conflicts and its other error.\<close>

type_synonym outcome = "string \<times> goerr list \<times> goerr option"

inductive sweepRun ::
    "'w env \<Rightarrow> namespaceSync \<Rightarrow> namespaceSync list \<Rightarrow> string list \<Rightarrow> call list \<Rightarrow> outcome list \<Rightarrow> bool"
  for E :: "'w env" and n peers where
  swept: "sweepRun E n peers [] [] []"
| passed: "\<not> targetsNamespace ns n \<Longrightarrow> sweepRun E n peers nss ds os \<Longrightarrow> sweepRun E n peers (ns # nss) ds os"
| visited: "targetsNamespace ns n \<Longrightarrow> listRun (resourceRun E n ns peers) (worklist n) cs conf e \<Longrightarrow>
     sweepRun E n peers nss ds os \<Longrightarrow> sweepRun E n peers (ns # nss) (cs @ ds) ((ns, conf, e) # os)"

fun tallyOutcome :: "tally \<Rightarrow> outcome \<Rightarrow> tally" where
  "tallyOutcome (synced, failed, conflicted) (ns, conf, Some err) =
     (synced, fmupd ns (joinedLine (conf @ [err])) failed, conflicted)"
| "tallyOutcome (synced, failed, conflicted) (ns, conf, None) =
     (if conf = [] then (synced @ [ns], failed, conflicted)
      else (synced, fmupd ns (joinedLine conf) failed, conflicted @ [ns]))"

lemma namespaceLoop_run:
  assumes "getsAsked E"
  shows "namespaceLoop E n peers nss acc s = (acc', s') \<Longrightarrow>
    \<exists>cs os. calls s' = calls s @ cs \<and> sweepRun E n peers nss cs os \<and> acc' = foldl tallyOutcome acc os"
proof (induction nss arbitrary: acc s)
  case Nil
  then show ?case by (auto intro!: exI [of _ "[]"] swept)
next
  case (Cons ns nss)
  obtain synced failed conflicted where acc: "acc = (synced, failed, conflicted)" by (cases acc)
  show ?case
  proof (cases "targetsNamespace ns n")
    case False
    with Cons.prems acc have "namespaceLoop E n peers nss acc s = (acc', s')" by simp
    from Cons.IH [OF this] False show ?thesis by (blast intro: passed)
  next
    case True
    obtain conf e t where r: "syncResources E n ns peers s = ((conf, e), t)" by (metis surj_pair)
    obtain cs where cs: "calls t = calls s @ cs" "listRun (resourceRun E n ns peers) (worklist n) cs conf e"
      using syncResources_run [OF assms r] by blast
    have "namespaceLoop E n peers nss (tallyOutcome acc (ns, conf, e)) t = (acc', s')"
      using Cons.prems r True acc by (cases e) auto
    then obtain ds os where "calls s' = calls t @ ds" "sweepRun E n peers nss ds os"
        "acc' = foldl tallyOutcome (tallyOutcome acc (ns, conf, e)) os"
      using Cons.IH by blast
    with cs True show ?thesis
      by (intro exI [of _ "cs @ ds"] exI [of _ "(ns, conf, e) # os"]) (simp add: visited)
  qed
qed

lemma sweepRun_visits: "sweepRun E n peers nss cs os \<Longrightarrow> map fst os = filter (\<lambda>ns. targetsNamespace ns n) nss"
  by (induction rule: sweepRun.induct) auto

lemma sweepRun_outcome:
  "sweepRun E n peers nss cs os \<Longrightarrow> (ns, conf, e) \<in> set os \<Longrightarrow>
     \<exists>pre ds post. cs = pre @ ds @ post \<and> targetsNamespace ns n \<and> listRun (resourceRun E n ns peers) (worklist n) ds conf e"
proof (induction rule: sweepRun.induct)
  case (visited ns' cs conf' e' nss ds os)
  show ?case
  proof (cases "(ns, conf, e) = (ns', conf', e')")
    case True
    with visited show ?thesis by (intro exI [of _ "[]"] exI [of _ cs] exI [of _ ds]) simp
  next
    case False
    with visited obtain pre es post where "ds = pre @ es @ post" "targetsNamespace ns n"
        "listRun (resourceRun E n ns peers) (worklist n) es conf e" by auto
    then show ?thesis by (intro exI [of _ "cs @ pre"] exI [of _ es] exI [of _ post]) simp
  qed
qed simp_all

text \<open>Protocols the syncs follow are followed by the loop.\<close>

context call_protocol
begin

lemma listRun_keeps:
  assumes "listRun R xs cs conf e" and "\<And>x cs r. x \<in> set xs \<Longrightarrow> R x cs r \<Longrightarrow> Q cs"
  shows "Q cs"
  using assms by (induction rule: listRun.induct) (auto intro: Q_Nil Q_append)

lemma sweepRun_keeps:
  assumes "sweepRun E n peers nss cs os"
    and "\<And>ns item cs r. ns \<in> set nss \<Longrightarrow> targetsNamespace ns n \<Longrightarrow> item \<in> set (worklist n) \<Longrightarrow>
      resourceRun E n ns peers item cs r \<Longrightarrow> Q cs"
  shows "Q cs"
  using assms
proof (induction rule: sweepRun.induct)
  case (visited ns cs conf e nss ds os)
  have "Q cs" by (rule listRun_keeps [OF visited(2)], rule visited.prems [of ns]) (simp_all add: visited(1))
  moreover have "Q ds" by (rule visited.IH, rule visited.prems) simp_all
  ultimately show ?case by (rule Q_append)
next
  case (passed ns nss ds os)
  show ?case by (rule passed.IH, rule passed.prems) simp_all
qed (rule Q_Nil)

end

text \<open>The three kinds of outcome, and what the loop's variables hold at the end.\<close>

definition isSynced :: "outcome \<Rightarrow> bool" where
  "isSynced out \<longleftrightarrow> snd out = ([], None)"

definition isConflicted :: "outcome \<Rightarrow> bool" where
  "isConflicted out \<longleftrightarrow> fst (snd out) \<noteq> [] \<and> snd (snd out) = None"

definition outcomeErrors :: "outcome \<Rightarrow> goerr list" where
  "outcomeErrors out = fst (snd out) @ (case snd (snd out) of None \<Rightarrow> [] | Some e \<Rightarrow> [e])"

lemma tallyOutcome_eq:
  "tallyOutcome (synced, failed, conflicted) out =
     (synced @ (if isSynced out then [fst out] else []),
      if isSynced out then failed else fmupd (fst out) (joinedLine (outcomeErrors out)) failed,
      conflicted @ (if isConflicted out then [fst out] else []))"
  by (cases out; cases "snd (snd out)") (auto simp: isSynced_def isConflicted_def outcomeErrors_def)

lemma isConflicted_not_synced: "isConflicted out \<Longrightarrow> \<not> isSynced out"
  by (auto simp: isConflicted_def isSynced_def)

lemma tally_lists:
  "foldl tallyOutcome (a, m, b) os = (synced, failed, conflicted) \<Longrightarrow>
     synced = a @ map fst (filter isSynced os) \<and> conflicted = b @ map fst (filter isConflicted os)"
proof (induction os arbitrary: a m b)
  case (Cons out os)
  from Cons.prems [simplified foldl_Cons tallyOutcome_eq] show ?case by (auto dest: Cons.IH)
qed simp

lemma tally_failed:
  "foldl tallyOutcome (a, m, b) os = (synced, failed, conflicted) \<Longrightarrow> distinct (map fst os) \<Longrightarrow>
     fmlookup failed ns = (case map_of os ns of
        Some res \<Rightarrow> if isSynced (ns, res) then fmlookup m ns else Some (joinedLine (outcomeErrors (ns, res)))
      | None \<Rightarrow> fmlookup m ns)"
proof (induction os arbitrary: a m b)
  case (Cons out os)
  let ?m = "if isSynced out then m else fmupd (fst out) (joinedLine (outcomeErrors out)) m"
  have "fmlookup failed ns = (case map_of os ns of
        Some res \<Rightarrow> if isSynced (ns, res) then fmlookup ?m ns else Some (joinedLine (outcomeErrors (ns, res)))
      | None \<Rightarrow> fmlookup ?m ns)"
    using Cons.prems by (intro Cons.IH) (simp_all add: tallyOutcome_eq)
  moreover have "fst out \<notin> dom (map_of os)" using Cons.prems(2) by (simp add: dom_map_of_conv_image_fst)
  ultimately show ?case
    by (cases out) (auto split: option.splits simp: domIff)
qed simp

lemma tally_dom:
  assumes "foldl tallyOutcome ([], fmempty, []) os = (synced, failed, conflicted)" and "distinct (map fst os)"
  shows "fmdom' failed = fst ` {out \<in> set os. \<not> isSynced out}"
proof -
  have "ns \<in> fmdom' failed \<longleftrightarrow> (\<exists>res. (ns, res) \<in> set os \<and> \<not> isSynced (ns, res))" for ns
    using tally_failed [OF assms, of ns]
    by (auto simp: fmlookup_dom'_iff map_of_eq_Some_iff [OF assms(2), symmetric] split: option.splits)
  then show ?thesis by force
qed

lemma tally_tallies:
  assumes "foldl tallyOutcome ([], fmempty, []) os = (synced, failed, conflicted)" and "distinct (map fst os)"
  shows "tallies failed conflicted"
  using tally_lists [OF assms(1)] tally_dom [OF assms] assms(2) isConflicted_not_synced
  by (auto simp: tallies_def distinct_map inj_on_def)

section \<open>Runs of a reconcile\<close>

text \<open>
  What the properties assume of the environment, all documented of the libraries: a read returns the
  object asked for; the cluster's namespaces have different names; a retried function's last result is
  the one returned.
\<close>

definition listsDistinct :: "'w env \<Rightarrow> bool" where
  "listsDistinct E \<longleftrightarrow> (\<forall>w nss. fst (cl_list_namespaces E w) = Inr nss \<longrightarrow> distinct nss)"

definition syncsAsked :: "'w env \<Rightarrow> bool" where
  "syncsAsked E \<longleftrightarrow> (\<forall>key w n. fst (cl_get_sync E key w) = Inr n \<longrightarrow> syncKey n = key)"

definition clientLaws :: "'w env \<Rightarrow> bool" where
  "clientLaws E \<longleftrightarrow> getsAsked E \<and> syncsAsked E \<and> listsDistinct E \<and> retriesRuns E"

definition finalizerRun :: "'w env \<Rightarrow> key \<Rightarrow> call list \<Rightarrow> goerr option \<Rightarrow> bool" where
  "finalizerRun E key cs r \<longleftrightarrow>
     (\<exists>e. cs = [CGetSync key (Inl e)] \<and> r = Some e) \<or>
     (\<exists>m. cs = [CGetSync key (Inr m)] \<and> containsFinalizer E m finalizerName \<and> r = None) \<or>
     (\<exists>m. cs = [CGetSync key (Inr m), CUpdateSync (addFinalizer E m finalizerName) r] \<and>
        \<not> containsFinalizer E m finalizerName)"

text \<open>The finalizer is in place after the calls \<open>fs\<close>.\<close>

definition finalizerReady :: "'w env \<Rightarrow> key \<Rightarrow> namespaceSync \<Rightarrow> call list \<Rightarrow> bool" where
  "finalizerReady E key n fs \<longleftrightarrow>
     (if containsFinalizer E n finalizerName then fs = [] else retried (finalizerRun E key) fs None)"

definition statusStep ::
    "'w env \<Rightarrow> namespaceSync \<Rightarrow> string list \<Rightarrow> (string, string) fmap \<Rightarrow> string list \<Rightarrow> call list \<Rightarrow> goerr option \<Rightarrow> bool" where
  "statusStep E n synced failed conflicted cs r \<longleftrightarrow>
     (if deletionTimestamp (nsMeta n) = None
      then retried (statusRun (syncKey n) (reports E synced failed conflicted)) cs r
      else cs = [] \<and> r = None)"

text \<open>A read that finds something finds what it asked for.\<close>

fun readAsked :: "call \<Rightarrow> bool" where
  "readAsked (CGet k key (Inr x)) = (objKind x = k \<and> objKey x = key)"
| "readAsked (CRead k key (Inr x)) = (objKind x = k \<and> objKey x = key)"
| "readAsked _ = True"

definition deletionRun :: "'w env \<Rightarrow> namespaceSync \<Rightarrow> call list \<Rightarrow> goerr option \<Rightarrow> bool" where
  "deletionRun E n cs r \<longleftrightarrow> cleanupCalls E n cs \<and> list_all readAsked cs \<and>
     (if containsFinalizer E n finalizerName then releaseRun E n cs r else cs = [] \<and> r = None)"

inductive reconcileRun :: "'w env \<Rightarrow> int \<Rightarrow> key \<Rightarrow> call list \<Rightarrow> int \<Rightarrow> goerr option \<Rightarrow> bool"
  for E :: "'w env" and interval key where
  gone: "isNotFound E e \<Longrightarrow> reconcileRun E interval key [CGetSync key (Inl e)] 0 None"
| unread: "\<not> isNotFound E e \<Longrightarrow> reconcileRun E interval key [CGetSync key (Inl e)] 0 (Some e)"
| deleting: "syncKey n = key \<Longrightarrow> \<not> timeIsZero E (deletionTimestamp (nsMeta n)) \<Longrightarrow> deletionRun E n cs r \<Longrightarrow>
     reconcileRun E interval key (CGetSync key (Inr n) # cs) 0 r"
| invalid: "syncKey n = key \<Longrightarrow> timeIsZero E (deletionTimestamp (nsMeta n)) \<Longrightarrow> validateNamespaceSync E n = Some err \<Longrightarrow>
     retried (statusRun key (reportsInvalid E n err)) cs r \<Longrightarrow>
     reconcileRun E interval key (CGetSync key (Inr n) # cs) 0 (Some (terminalError E err))"
| unfinalized: "syncKey n = key \<Longrightarrow> timeIsZero E (deletionTimestamp (nsMeta n)) \<Longrightarrow> validSpec n \<Longrightarrow>
     \<not> containsFinalizer E n finalizerName \<Longrightarrow> retried (finalizerRun E key) fs (Some e) \<Longrightarrow>
     reconcileRun E interval key (CGetSync key (Inr n) # fs) 0 (Some e)"
| namespaces_unread: "syncKey n = key \<Longrightarrow> timeIsZero E (deletionTimestamp (nsMeta n)) \<Longrightarrow> validSpec n \<Longrightarrow>
     finalizerReady E key n fs \<Longrightarrow>
     reconcileRun E interval key (CGetSync key (Inr n) # fs @ [CListNamespaces (Inl e)]) 0 (Some e)"
| peers_unread: "syncKey n = key \<Longrightarrow> timeIsZero E (deletionTimestamp (nsMeta n)) \<Longrightarrow> validSpec n \<Longrightarrow>
     finalizerReady E key n fs \<Longrightarrow>
     reconcileRun E interval key (CGetSync key (Inr n) # fs @ [CListNamespaces (Inr nss), CListSyncs (Inl e)]) 0
       (Some (wrapBack ''list NamespaceSyncs'' e))"
| reconciled: "syncKey n = key \<Longrightarrow> timeIsZero E (deletionTimestamp (nsMeta n)) \<Longrightarrow> validSpec n \<Longrightarrow>
     finalizerReady E key n fs \<Longrightarrow> distinct nss \<Longrightarrow> set peers = livePeers E n items \<Longrightarrow>
     sweepRun E n peers nss cs os \<Longrightarrow>
     foldl tallyOutcome ([], fmempty, []) os = (synced, failed, conflicted) \<Longrightarrow>
     statusStep E n synced failed conflicted us r \<Longrightarrow> d = (if r = None then interval else 0) \<Longrightarrow>
     reconcileRun E interval key
       (CGetSync key (Inr n) # fs @ [CListNamespaces (Inr nss), CListSyncs (Inr items)] @ cs @ us) d r"

lemma addFinalizerOnce_run:
  assumes "addFinalizerOnce E key s = (r, s')"
  shows "\<exists>cs. calls s' = calls s @ cs \<and> finalizerRun E key cs r"
proof -
  obtain q t where g: "doGetSync E key s = (q, t)" by (metis surj_pair)
  note unfold = assms [unfolded addFinalizerOnce_def g] and t = doGetSync_calls [OF g]
  show ?thesis
  proof (cases q)
    case (Inr m)
    show ?thesis
    proof (cases "containsFinalizer E m finalizerName")
      case False
      then have "doUpdateSync E (addFinalizer E m finalizerName) t = (r, s')" using unfold Inr by simp
      from doUpdateSync_calls [OF this] t Inr False show ?thesis by (auto simp: finalizerRun_def)
    qed (use unfold t Inr in \<open>auto simp: finalizerRun_def\<close>)
  qed (use unfold t in \<open>auto simp: finalizerRun_def\<close>)
qed

lemma recordOutcome_frame [simp]: "calls (recordOutcome E n acc s) = calls s"
  by (simp add: recordOutcome_def Let_def split: prod.split)

lemma updateStatus_step:
  assumes "retriesRuns E" and "tallies failed conflicted" and "updateStatus E n synced failed conflicted s = (r, s')"
  shows "\<exists>cs. calls s' = calls s @ cs \<and> statusStep E n synced failed conflicted cs r"
proof (cases "deletionTimestamp (nsMeta n)")
  case None
  with updateStatus_run [OF assms(1,2) _ assms(3)] show ?thesis by (simp add: statusStep_def)
next
  case (Some t)
  with assms(3) show ?thesis by (simp add: statusStep_def updateStatus_def)
qed

lemma reconcileSpec_run:
  assumes laws: "clientLaws E" and n: "syncKey n = key" "timeIsZero E (deletionTimestamp (nsMeta n))" "validSpec n"
    "finalizerReady E key n fs"
    and run: "reconcileSpec E interval n s = ((d, r), s')"
  shows "\<exists>cs. calls s' = calls s @ cs \<and> reconcileRun E interval key (CGetSync key (Inr n) # fs @ cs) d r"
proof -
  obtain q t where q: "doListNamespaces E s = (q, t)" by (metis surj_pair)
  note t = doListNamespaces_calls [OF q]
  show ?thesis
  proof (cases q)
    case (Inl e)
    with run q t n show ?thesis by (auto simp: reconcileSpec_def intro: namespaces_unread)
  next
    case (Inr nss)
    have distinct: "distinct nss"
      using laws q Inr by (metis clientLaws_def doListNamespaces_def fst_conv listsDistinct_def perform_fst)
    obtain p u where p: "listPeers E n t = (p, u)" by (metis surj_pair)
    from p show ?thesis
    proof (cases rule: listPeers_cases)
      case (failed e)
      with run q t p Inr n show ?thesis by (auto simp: reconcileSpec_def intro!: peers_unread)
    next
      case (listed items peers)
      obtain start u1 where 1: "timeNow E u = (start, u1)" by (metis surj_pair)
      obtain synced failed conflicted v where 2: "namespaceLoop E n peers nss ([], fmempty, []) u1 = ((synced, failed, conflicted), v)"
        by (metis prod_cases3 surj_pair)
      obtain now v1 where 3: "timeNow E v = (now, v1)" by (metis surj_pair)
      define w where "w = recordOutcome E n (synced, failed, conflicted)
        (setManaged (metaName (nsMeta n)) ''configmap'' (length (ConfigMapName (Spec n)))
          (setManaged (metaName (nsMeta n)) ''secret'' (length (SecretName (Spec n)))
            (observeDuration (metaName (nsMeta n)) ''all'' (timeSub now start) v1)))"
      have w: "calls w = calls v" using timeNow_calls [OF 3] by (simp add: w_def)
      have st: "(case updateStatus E n synced failed conflicted w of
          (Some err, s) \<Rightarrow> ((0, Some err), s) | (None, s) \<Rightarrow> ((interval, None), s)) = ((d, r), s')"
        using run q p Inr listed(2) 1 2 3 by (simp add: reconcileSpec_def Let_def w_def)
      obtain cs os where cs: "calls v = calls u1 @ cs" "sweepRun E n peers nss cs os"
          and acc: "foldl tallyOutcome ([], fmempty, []) os = (synced, failed, conflicted)"
        using namespaceLoop_run [OF _ 2] laws by (auto simp: clientLaws_def)
      have "distinct (map fst os)" using sweepRun_visits [OF cs(2)] distinct by simp
      note tallies = tally_tallies [OF acc this]
      obtain r' x where x: "updateStatus E n synced failed conflicted w = (r', x)" by (metis surj_pair)
      with st have r: "r' = r" "x = s'" "d = (if r = None then interval else 0)" by (auto split: option.splits)
      have "retriesRuns E" using laws by (simp add: clientLaws_def)
      from updateStatus_step [OF this tallies x] obtain us where
        us: "calls s' = calls w @ us" "statusStep E n synced failed conflicted us r" using r by auto
      have "calls s' = calls s @ [CListNamespaces (Inr nss), CListSyncs (Inr items)] @ cs @ us"
        using us w cs(1) timeNow_calls [OF 1] listed(1) t Inr by simp
      with reconciled [OF n distinct listed(3) cs(2) acc us(2) r(3)] show ?thesis by blast
    qed
  qed
qed

lemma uncachedGet_readAsked:
  assumes "getsAsked E"
  shows "extBy (list_all readAsked) s (snd (uncachedGet E k key s))"
proof (cases "apiReader E")
  case None
  have "readAsked (CGet k key (fst (doGet E k key s)))"
    using doGet_asked [OF assms] by (cases "fst (doGet E k key s)") auto
  then show ?thesis unfolding uncachedGet_def None doGet_def by (simp add: each.ext_perform)
next
  case (Some f)
  have "readAsked (CRead k key (fst (perform (f k key) (CRead k key) s)))"
    using assms Some
    by (cases key; cases "fst (perform (f k key) (CRead k key) s)") (auto simp: getsAsked_def perform_fst)
  then show ?thesis unfolding uncachedGet_def Some by (simp add: each.ext_perform)
qed

lemma deleteManagedCopy_readAsked:
  assumes "getsAsked E"
  shows "extBy (list_all readAsked) s (snd (deleteManagedCopy E stub src s))"
proof -
  obtain q t where q: "uncachedGet E (objKind stub) (objKey stub) s = (q, t)" by (metis surj_pair)
  then have t: "extBy (list_all readAsked) s t" by (metis uncachedGet_readAsked [OF assms] snd_conv)
  have "extBy (list_all readAsked) t (snd (doDelete E x uid rv t))" for x uid rv
    unfolding doDelete_def by (rule each.ext_perform) simp
  then have "extBy (list_all readAsked) s (snd (doDelete E x uid rv t))" for x uid rv
    by (rule each.step_trans [OF t])
  with t q show ?thesis
    by (auto simp: deleteManagedCopy_def Let_def split: sum.split prod.splits option.splits) (metis snd_conv)+
qed

lemma handleDeletion_readAsked:
  assumes "getsAsked E"
  shows "extBy (list_all readAsked) s (snd (handleDeletionAndStatus E n s))"
proof -
  have cleanup: "extBy (list_all readAsked) s t" if "cleanupSyncedResources E n s = (r, t)" for r t
    using that
  proof (cases rule: cleanupSyncedResources_cases)
    case (ran nss items peers u errs)
    have "extBy (list_all readAsked) s u" by (rule extByI [OF ran(1)]) simp
    moreover have "extBy (list_all readAsked) u (snd (cleanupLoop E n peers nss u))"
      by (rule each.cleanupLoop_ext; rule deleteManagedCopy_readAsked [OF assms])
    ultimately show ?thesis unfolding ran(3) snd_conv by (rule each.step_trans)
  qed (auto simp: extBy_def)
  obtain d r s' where h: "handleDeletionAndStatus E n s = ((d, r), s')" by (metis surj_pair)
  from h show ?thesis
  proof (cases rule: handleDeletion_cases)
    case (cleaned t q)
    have "extBy (list_all readAsked) t s'" by (rule extByI [OF cleaned(3)]) simp
    with cleanup [OF cleaned(2)] h show ?thesis by (auto intro: each.step_trans)
  qed (use h cleanup in \<open>auto simp: extBy_def\<close>)
qed

lemma handleDeletion_run:
  assumes laws: "getsAsked E" and "handleDeletionAndStatus E n s = ((d, r), s')"
  shows "d = 0 \<and> (\<exists>cs. calls s' = calls s @ cs \<and> deletionRun E n cs r)"
proof -
  have d: "d = 0"
    using assms(2) by (auto simp: handleDeletionAndStatus_def Let_def split: if_splits prod.splits option.splits)
  have asked: "calls s' = calls s @ cs \<Longrightarrow> list_all readAsked cs" for cs
    using handleDeletion_readAsked [OF laws, of s n] assms(2) by (auto simp: extBy_def)
  obtain cs where cs: "calls s' = calls s @ cs" "cleanupCalls E n cs"
    using handleDeletion_guarded [of E n s] assms(2) by (auto simp: extBy_def)
  show ?thesis
  proof (cases "containsFinalizer E n finalizerName")
    case True
    from handleDeletion_release [OF this assms(2)] cs d True asked show ?thesis by (auto simp: deletionRun_def)
  next
    case False
    with assms(2) d show ?thesis
      by (auto simp: handleDeletionAndStatus_def deletionRun_def cleanupCalls_def)
  qed
qed

lemma Reconcile_run:
  assumes laws: "clientLaws E" and run: "Reconcile E interval key s = ((d, r), s')"
  shows "\<exists>cs. calls s' = calls s @ cs \<and> reconcileRun E interval key cs d r"
proof -
  obtain q t where q: "doGetSync E key s = (q, t)" by (metis surj_pair)
  note t = doGetSync_calls [OF q] and unfold = run [unfolded Reconcile_def q]
  show ?thesis
  proof (cases q)
    case (Inl e)
    with unfold t show ?thesis by (auto intro: gone unread split: if_splits)
  next
    case (Inr n)
    have key: "syncKey n = key"
      using laws q Inr by (metis clientLaws_def doGetSync_def fst_conv perform_fst syncsAsked_def)
    show ?thesis
    proof (cases "timeIsZero E (deletionTimestamp (nsMeta n))")
      case False
      with unfold Inr have "handleDeletionAndStatus E n t = ((d, r), s')" by simp
      have "getsAsked E" using laws by (simp add: clientLaws_def)
      from handleDeletion_run [OF this \<open>handleDeletionAndStatus E n t = ((d, r), s')\<close>] t Inr key False show ?thesis by (auto intro!: deleting)
    next
      case live: True
      show ?thesis
      proof (cases "validateNamespaceSync E n")
        case (Some err)
        let ?t = "recordEvent E n EventTypeWarning ''ValidationFailed'' (errorMsg err) t"
        obtain r' u where u: "updateInvalidSpecStatus E n err ?t = (r', u)" by (metis surj_pair)
        have "u = s'" "d = 0" "r = Some (terminalError E err)"
          using unfold Inr live Some u by (simp_all add: Let_def)
        moreover have "retriesRuns E" using laws by (simp add: clientLaws_def)
        ultimately show ?thesis
          using updateInvalidSpecStatus_run [OF _ u] t Inr key live Some by (auto intro!: invalid)
      next
        case None
        then have valid: "validSpec n" by (simp add: validateNamespaceSync_None)
        show ?thesis
        proof (cases "containsFinalizer E n finalizerName")
          case True
          with unfold Inr live None have "reconcileSpec E interval n t = ((d, r), s')" by simp
          from reconcileSpec_run [OF laws key live valid _ this, of "[]"] True t Inr show ?thesis
            by (auto simp: finalizerReady_def)
        next
          case False
          obtain e u where u: "retryOnConflict E (addFinalizerOnce E key) t = (e, u)" by (metis surj_pair)
          have "retriesRuns E" using laws by (simp add: clientLaws_def)
          then obtain fs where fs: "calls u = calls t @ fs" "retried (finalizerRun E key) fs e"
            using retry_run [where R = "finalizerRun E key", OF _ addFinalizerOnce_run u] by blast
          show ?thesis
          proof (cases e)
            case (Some err)
            with unfold Inr live None False u fs t key valid show ?thesis
              by (auto intro!: unfinalized)
          next
            case None
            with unfold Inr live \<open>validateNamespaceSync E n = None\<close> False u
            have "reconcileSpec E interval n u = ((d, r), s')" by simp
            moreover have "finalizerReady E key n fs" using False fs None by (simp add: finalizerReady_def)
            ultimately show ?thesis using reconcileSpec_run [OF laws key live valid] fs(1) t Inr by fastforce
          qed
        qed
      qed
    qed
  qed
qed

end
