(* ===== verification/Safety.thy ===== *)
theory Safety
  imports Controller
begin

text \<open>
  What holds of every reconcile, read off \<open>reconcileRun\<close>: which objects it may write and when, that it
  holds the finalizer before it writes, that an invalid spec writes nothing, and that the status it
  reports is what happened.
\<close>

section \<open>Writes of the parts\<close>

lemma listRun_protocol:
  assumes "listRun R xs cs conf e" and "\<And>x cs r. x \<in> set xs \<Longrightarrow> R x cs r \<Longrightarrow> precededBy T W cs"
  shows "precededBy T W cs"
  using assms by (induction rule: listRun.induct) (auto intro: prec.Q_Nil prec.Q_append)

lemma listRun_items:
  "listRun R xs cs [] None \<Longrightarrow> x \<in> set xs \<Longrightarrow> \<exists>pre ds post. cs = pre @ ds @ post \<and> R x ds None"
proof (induction xs cs "[] :: goerr list" "None :: goerr option" rule: listRun.induct)
  case (synced y cs xs ds)
  show ?case
  proof (cases "x = y")
    case True
    with synced(1) show ?thesis by (intro exI [of _ "[]"] exI [of _ cs] exI [of _ ds]) simp
  next
    case False
    with synced obtain pre es post where "ds = pre @ es @ post" "R x es None" by auto
    then show ?thesis by (intro exI [of _ "cs @ pre"] exI [of _ es] exI [of _ post]) simp
  qed
qed simp_all

lemma resourceRun_writeOK:
  assumes "targetsNamespace tgt n" and "item \<in> set (worklist n)" and "resourceRun E n tgt peers item cs r"
  shows "precededBy isWrite (writeOK E n peers) cs"
proof -
  have "syncsInto (typeName (fst item)) (SourceNamespace (Spec n)) tgt (snd item) n"
    using assms(1,2) worklist_iff [of "fst item" "snd item" n] by (simp add: syncsInto_def)
  with assms(3) show ?thesis unfolding resourceRun_def by (rule syncRun_writeOK)
qed

lemma sweepRun_writeOK:
  "sweepRun E n peers nss cs os \<Longrightarrow> precededBy isWrite (writeOK E n peers) cs"
  by (induction rule: sweepRun.induct)
    (auto intro: prec.Q_Nil prec.Q_append listRun_protocol resourceRun_writeOK)

lemma statusRun_quiet: "statusRun key P cs r \<Longrightarrow> list_all (\<lambda>c. \<not> isWrite c) cs"
  by (auto simp: statusRun_def)

lemma finalizerRun_quiet: "finalizerRun E key cs r \<Longrightarrow> list_all (\<lambda>c. \<not> isWrite c) cs"
  by (auto simp: finalizerRun_def)

lemma retried_status_quiet: "retried (statusRun key P) cs r \<Longrightarrow> list_all (\<lambda>c. \<not> isWrite c) cs"
  by (erule retried_all) (rule statusRun_quiet)

lemma retried_finalizer_quiet: "retried (finalizerRun E key) cs r \<Longrightarrow> list_all (\<lambda>c. \<not> isWrite c) cs"
  by (erule retried_all) (rule finalizerRun_quiet)

lemma statusStep_quiet: "statusStep E n synced failed conflicted cs r \<Longrightarrow> list_all (\<lambda>c. \<not> isWrite c) cs"
  by (auto simp: statusStep_def intro: retried_status_quiet split: if_splits)

lemma finalizerReady_quiet: "finalizerReady E key n fs \<Longrightarrow> list_all (\<lambda>c. \<not> isWrite c) fs"
  by (auto simp: finalizerReady_def intro: retried_finalizer_quiet split: if_splits)

lemmas quiet_parts = statusStep_quiet finalizerReady_quiet retried_status_quiet retried_finalizer_quiet

section \<open>What a reconcile may write\<close>

text \<open>
  The calls of a reconcile of \<open>key\<close>: no write to any Secret or ConfigMap, or writes a live, valid
  NamespaceSync may make given the peers listed in the same reconcile, or the deletions of a cleanup.
\<close>

definition reconcileWrites :: "'w env \<Rightarrow> key \<Rightarrow> call list \<Rightarrow> bool" where
  "reconcileWrites E key cs \<longleftrightarrow>
     list_all (\<lambda>c. \<not> isWrite c) cs \<or>
     (\<exists>n items peers. CGetSync key (Inr n) = hd cs \<and> CListSyncs (Inr items) \<in> set cs \<and>
        set peers = livePeers E n items \<and>
        (if timeIsZero E (deletionTimestamp (nsMeta n))
         then validSpec n \<and> precededBy isWrite (writeOK E n peers) cs
         else deletesGuarded (cleanupPlace n (set peers)) (SourceNamespace (Spec n)) cs \<and>
           list_all (\<lambda>c. isWrite c \<longrightarrow> isDelete c) cs))"

lemma reconcileRun_reconciled_writes:
  assumes "validSpec n" and "timeIsZero E (deletionTimestamp (nsMeta n))" and "finalizerReady E key n fs"
    and "set peers = livePeers E n items" and "sweepRun E n peers nss cs os"
    and "statusStep E n synced failed conflicted us r"
  shows "reconcileWrites E key (CGetSync key (Inr n) # fs @ [CListNamespaces (Inr nss), CListSyncs (Inr items)] @ cs @ us)"
proof -
  let ?pre = "CGetSync key (Inr n) # fs @ [CListNamespaces (Inr nss), CListSyncs (Inr items)]"
  have "precededBy isWrite (writeOK E n peers) ?pre"
    using quiet_parts(2) [OF assms(3)] by (intro precededBy_none) simp
  moreover have "precededBy isWrite (writeOK E n peers) us"
    using quiet_parts(1) [OF assms(6)] by (rule precededBy_none)
  ultimately have "precededBy isWrite (writeOK E n peers) (?pre @ cs @ us)"
    using sweepRun_writeOK [OF assms(5)] by (blast intro: prec.Q_append)
  with assms show ?thesis
    unfolding reconcileWrites_def
    by (intro disjI2 exI [of _ n] exI [of _ items] exI [of _ peers]) simp
qed

lemma deletionRun_writes:
  assumes "deletionRun E n cs r" and "\<not> timeIsZero E (deletionTimestamp (nsMeta n))"
  shows "reconcileWrites E key (CGetSync key (Inr n) # cs)"
proof -
  let ?G = "\<lambda>peers. deletesGuarded (cleanupPlace n (set peers)) (SourceNamespace (Spec n))"
  have only: "list_all (\<lambda>c. isWrite c \<longrightarrow> isDelete c) cs"
    and cases: "list_all (\<lambda>c. \<not> isDelete c) cs \<or> (\<exists>items. CListSyncs (Inr items) \<in> set cs \<and>
      deletesGuarded (cleanupPlace n (livePeers E n items)) (SourceNamespace (Spec n)) cs)"
    using assms(1) by (auto simp: deletionRun_def cleanupCalls_def)
  from cases show ?thesis
  proof
    assume "list_all (\<lambda>c. \<not> isDelete c) cs"
    with only show ?thesis by (auto simp: reconcileWrites_def list_all_iff)
  next
    assume "\<exists>items. CListSyncs (Inr items) \<in> set cs \<and>
      deletesGuarded (cleanupPlace n (livePeers E n items)) (SourceNamespace (Spec n)) cs"
    then obtain items where items: "CListSyncs (Inr items) \<in> set cs"
      "deletesGuarded (cleanupPlace n (livePeers E n items)) (SourceNamespace (Spec n)) cs" by blast
    obtain peers where peers: "set peers = livePeers E n items"
      using finite_list [of "livePeers E n items"] by (auto simp: livePeers_def)
    have "?G peers (CGetSync key (Inr n) # cs)"
      using items(2) peers unfolding deletesGuarded_def by (intro precededBy_Cons) auto
    with items(1) peers only assms(2) show ?thesis
      unfolding reconcileWrites_def
      by (intro disjI2 exI [of _ n] exI [of _ items] exI [of _ peers]) simp
  qed
qed

lemma reconcileRun_writes: "reconcileRun E interval key cs d r \<Longrightarrow> reconcileWrites E key cs"
proof (induction rule: reconcileRun.cases)
  case (deleting n cs r)
  then show ?case by (simp add: deletionRun_writes)
next
  case (reconciled n fs nss peers items cs os synced failed conflicted us r d)
  then show ?case using reconcileRun_reconciled_writes [of n E key fs peers items nss cs os] by simp
qed (auto simp: reconcileWrites_def dest: quiet_parts)

section \<open>The finalizer comes first\<close>

definition finalizerHeld :: "'w env \<Rightarrow> key \<Rightarrow> call list \<Rightarrow> bool" where
  "finalizerHeld E key cs \<longleftrightarrow>
     (\<exists>m. CGetSync key (Inr m) \<in> set cs \<and> containsFinalizer E m finalizerName) \<or>
     (\<exists>m. CUpdateSync (addFinalizer E m finalizerName) None \<in> set cs)"

lemma finalizerHeld_append: "finalizerHeld E key a \<Longrightarrow> finalizerHeld E key (a @ b)"
  by (auto simp: finalizerHeld_def)

lemma retried_finalizer_held: "retried (finalizerRun E key) fs r \<Longrightarrow> r = None \<Longrightarrow> finalizerHeld E key (c # fs)"
  by (induction rule: retried.induct) (auto simp: finalizerRun_def finalizerHeld_def)

lemma finalizerReady_held: "finalizerReady E key n fs \<Longrightarrow> finalizerHeld E key (CGetSync key (Inr n) # fs)"
proof (cases "containsFinalizer E n finalizerName")
  case True
  then show ?thesis by (auto simp: finalizerHeld_def)
next
  case False
  assume "finalizerReady E key n fs"
  with False have "retried (finalizerRun E key) fs None" by (simp add: finalizerReady_def)
  then show ?thesis by (rule retried_finalizer_held) (rule refl)
qed

text \<open>A write comes after a part of the history without writes.\<close>

lemma write_after:
  assumes "pre @ post = a @ c # b" and "list_all (\<lambda>c. \<not> isWrite c) pre" and "isWrite c"
  shows "\<exists>t. a = pre @ t"
proof (rule ccontr)
  assume "\<nexists>t. a = pre @ t"
  with assms(1) obtain us where "pre = a @ c # us"
    by (auto simp: append_eq_append_conv2 append_eq_Cons_conv)
  with assms(2,3) show False by simp
qed

lemma reconcileRun_finalizer:
  assumes "reconcileRun E interval key cs d r" and "cs = a @ c # b" and "isWrite c"
  shows "finalizerHeld E key a"
  using assms(1)
proof cases
  case (deleting n ds)
  have held: "containsFinalizer E n finalizerName"
    using deleting assms(2,3) by (cases a) (auto simp: deletionRun_def split: if_splits)
  moreover obtain t where "a = [CGetSync key (Inr n)] @ t"
    using write_after [of "[CGetSync key (Inr n)]" ds a c b] deleting assms(2,3) by auto
  ultimately show ?thesis by (auto simp: finalizerHeld_def)
next
  case (reconciled n fs nss peers items ds os synced failed conflicted us)
  let ?pre = "CGetSync key (Inr n) # fs"
  have "\<exists>t. a = ?pre @ t"
    using reconciled assms(2,3) quiet_parts(2) [OF reconciled(5)]
      write_after [of ?pre "[CListNamespaces (Inr nss), CListSyncs (Inr items)] @ ds @ us" a c b] by simp
  with finalizerReady_held [OF reconciled(5)] show ?thesis by (auto dest: finalizerHeld_append)
next
  case (namespaces_unread n fs e)
  have "list_all (\<lambda>c. \<not> isWrite c) cs" using quiet_parts(2) [OF namespaces_unread(7)] namespaces_unread(1) by simp
  with assms(2,3) show ?thesis by simp
next
  case (peers_unread n fs nss e)
  have "list_all (\<lambda>c. \<not> isWrite c) cs" using quiet_parts(2) [OF peers_unread(7)] peers_unread(1) by simp
  with assms(2,3) show ?thesis by simp
next
  case (invalid n err ds r')
  have "list_all (\<lambda>c. \<not> isWrite c) cs" using quiet_parts(3) [OF invalid(7)] invalid(1) by simp
  with assms(2,3) show ?thesis by simp
next
  case (unfinalized n fs e)
  have "list_all (\<lambda>c. \<not> isWrite c) cs" using quiet_parts(4) [OF unfinalized(8)] unfinalized(1) by simp
  with assms(2,3) show ?thesis by simp
qed (use assms(2,3) in \<open>auto simp: append_eq_Cons_conv\<close>)

section \<open>Invalid specs\<close>

lemma reconcileRun_invalid:
  assumes "reconcileRun E interval key (CGetSync key (Inr n) # cs) d r"
    and "timeIsZero E (deletionTimestamp (nsMeta n))" and "\<not> validSpec n"
  shows "\<exists>err r'. validateNamespaceSync E n = Some err \<and> d = 0 \<and> r = Some (terminalError E err) \<and>
    retried (statusRun key (reportsInvalid E n err)) cs r'"
  using assms(1)
  by cases (use assms(2,3) in auto)

section \<open>The reported status\<close>

text \<open>What the last write of a reconcile says, by the outcomes \<open>os\<close>.\<close>

definition outcomeReady :: "outcome list \<Rightarrow> string \<times> string" where
  "outcomeReady os =
     (if list_all isSynced os then (conditionTrue, ''SyncComplete'')
      else if list_all (\<lambda>out. isSynced out \<or> isConflicted out) os then (conditionTrue, ''SyncConflict'')
      else if list_ex isSynced os then (conditionTrue, ''PartialSync'')
      else (conditionFalse, ''SyncFailed''))"

definition statusSays :: "'w env \<Rightarrow> namespaceSync \<Rightarrow> outcome list \<Rightarrow> namespaceSync \<Rightarrow> bool" where
  "statusSays E latest os m \<longleftrightarrow>
     SyncedNamespaces (Status m) = map fst (filter isSynced os) \<and>
     (\<forall>ns. mapLookup (FailedNamespaces (Status m)) ns =
        (case map_of os ns of None \<Rightarrow> None
         | Some res \<Rightarrow> if isSynced (ns, res) then None else Some (joinedLine (outcomeErrors (ns, res))))) \<and>
     ObservedGeneration (Status m) = generation (nsMeta latest) \<and>
     (\<exists>c. Conditions (Status m) = setStatusCondition E (Conditions (Status latest)) c \<and> condType c = ''Ready'' \<and>
        condObservedGeneration c = generation (nsMeta latest) \<and> (condStatus c, condReason c) = outcomeReady os)"

lemma tally_ready:
  assumes acc: "foldl tallyOutcome ([], fmempty, []) os = (synced, failed, conflicted)" and dist: "distinct (map fst os)"
  shows "readyOutcome synced failed conflicted = outcomeReady os"
proof -
  note lists = tally_lists [OF acc] and dom = tally_dom [OF acc dist]
  have inj: "inj_on fst (set os)" using dist by (simp add: distinct_map)
  have "failed = fmempty \<longleftrightarrow> list_all isSynced os"
    using dom mapLen_0 [of failed] by (auto simp: mapLen_card list_all_iff)
  moreover have "fmdom' failed = set conflicted \<longleftrightarrow> {out \<in> set os. \<not> isSynced out} = {out \<in> set os. isConflicted out}"
    using dom lists inj by (simp add: inj_on_image_eq_iff)
  then have "fmdom' failed = set conflicted \<longleftrightarrow> list_all (\<lambda>out. isSynced out \<or> isConflicted out) os"
    using isConflicted_not_synced by (auto simp: list_all_iff)
  moreover have "synced \<noteq> [] \<longleftrightarrow> list_ex isSynced os"
    using lists by (auto simp: list_ex_iff filter_empty_conv)
  ultimately show ?thesis by (simp add: readyOutcome_def outcomeReady_def)
qed

lemma reports_says:
  assumes "foldl tallyOutcome ([], fmempty, []) os = (synced, failed, conflicted)" and "distinct (map fst os)"
    and "reports E synced failed conflicted latest m"
  shows "statusSays E latest os m"
  using assms(3) tally_lists [OF assms(1)] tally_failed [OF assms(1,2)] tally_ready [OF assms(1,2)]
  by (auto simp: statusSays_def reports_def split: option.split)

lemma retried_status_last:
  "retried (statusRun key P) cs r \<Longrightarrow> r = None \<Longrightarrow>
     \<exists>pre latest m. cs = pre @ [CGetSync key (Inr latest), CUpdateStatus m None] \<and> P latest m \<and>
       nsMeta m = nsMeta latest \<and> Spec m = Spec latest"
proof (induction rule: retried.induct)
  case (once cs r)
  then show ?case by (auto simp: statusRun_def)
next
  case (more cs e ds r)
  then show ?case by (metis append.assoc)
qed

text \<open>The runs of the targeted namespaces, in the order of the namespace list, lie in the history \<open>cs\<close>.\<close>

definition outcomesIn :: "'w env \<Rightarrow> namespaceSync \<Rightarrow> namespaceSync list \<Rightarrow> string list \<Rightarrow> outcome list \<Rightarrow> call list \<Rightarrow> bool" where
  "outcomesIn E n peers nss os cs \<longleftrightarrow>
     map fst os = filter (\<lambda>ns. targetsNamespace ns n) nss \<and>
     (\<forall>ns conf e. (ns, conf, e) \<in> set os \<longrightarrow>
        (\<exists>pre ds post. cs = pre @ ds @ post \<and> listRun (resourceRun E n ns peers) (worklist n) ds conf e))"

lemma sweepRun_outcomesIn:
  "sweepRun E n peers nss cs os \<Longrightarrow> outcomesIn E n peers nss os (pre @ cs @ post)"
  unfolding outcomesIn_def
proof (intro conjI allI impI)
  fix ns conf e
  assume "sweepRun E n peers nss cs os" and "(ns, conf, e) \<in> set os"
  from sweepRun_outcome [OF this] obtain a ds b where "cs = a @ ds @ b"
      "listRun (resourceRun E n ns peers) (worklist n) ds conf e" by blast
  then show "\<exists>pre' ds post'. pre @ cs @ post = pre' @ ds @ post' \<and> listRun (resourceRun E n ns peers) (worklist n) ds conf e"
    by (intro exI [of _ "pre @ a"] exI [of _ ds] exI [of _ "b @ post"]) simp
qed (rule sweepRun_visits)

lemma reconcileRun_reported:
  assumes "reconcileRun E interval key (CGetSync key (Inr n) # cs) d None" and "d \<noteq> 0"
    and "deletionTimestamp (nsMeta n) = None"
  shows "\<exists>nss items peers os latest m pre.
    CListNamespaces (Inr nss) \<in> set cs \<and> CListSyncs (Inr items) \<in> set cs \<and> set peers = livePeers E n items \<and>
    outcomesIn E n peers nss os cs \<and> cs = pre @ [CGetSync key (Inr latest), CUpdateStatus m None] \<and>
    statusSays E latest os m"
  using assms(1)
proof cases
  case (reconciled fs nss peers items ds os synced failed conflicted us)
  have dist: "distinct (map fst os)" using sweepRun_visits [OF reconciled(8)] reconciled(6) by simp
  have "retried (statusRun key (reports E synced failed conflicted)) us None"
    using reconciled assms(3) by (simp add: statusStep_def)
  from retried_status_last [OF this refl] obtain pre latest m where
    us: "us = pre @ [CGetSync key (Inr latest), CUpdateStatus m None]"
    and rep: "reports E synced failed conflicted latest m" by blast
  let ?pre = "fs @ [CListNamespaces (Inr nss), CListSyncs (Inr items)]"
  have "outcomesIn E n peers nss os cs"
    using sweepRun_outcomesIn [OF reconciled(8), of ?pre us] reconciled(1) by simp
  moreover have "statusSays E latest os m" by (rule reports_says [OF reconciled(9) dist rep])
  moreover have "cs = (?pre @ ds @ pre) @ [CGetSync key (Inr latest), CUpdateStatus m None]"
    using us reconciled(1) by simp
  ultimately show ?thesis using reconciled(1,7) by (intro exI conjI) auto
qed (use assms(2) in auto)

end
