(* ===== verification/EventMap.thy ===== *)
theory EventMap
  imports Safety
begin

text \<open>
  \<^verbatim>\<open>internal/controller/events.go\<close>: which NamespaceSyncs an event on a namespace, Secret or ConfigMap
  enqueues. The specification is that of the watches: whatever a reconcile of a NamespaceSync reads, a
  change of it enqueues that NamespaceSync again. And which events on NamespaceSyncs the controller's
  predicate passes over: those of its own writes.
\<close>

section \<open>Requests\<close>

text \<open>The loops over the listed NamespaceSyncs; a request is the key of one.\<close>

fun namespaceRequests :: "string \<Rightarrow> namespaceSync list \<Rightarrow> key list" where
  "namespaceRequests namespace [] = []"
| "namespaceRequests namespace (n # ns) =
     (if namespace = SourceNamespace (Spec n) then [(metaNamespace (nsMeta n), metaName (nsMeta n))] else []) @
     (if shouldSyncToNamespace namespace n then [(metaNamespace (nsMeta n), metaName (nsMeta n))] else []) @
     namespaceRequests namespace ns"

definition findNamespaceSyncs :: "'w env \<Rightarrow> string \<Rightarrow> 'w st \<Rightarrow> key list \<times> 'w st" where
  "findNamespaceSyncs E namespace s =
     (case doListSyncs E s of
        (Inl err, s) \<Rightarrow> ([], s)
      | (Inr items, s) \<Rightarrow> (namespaceRequests namespace items, s))"

fun resourceRequests :: "string \<Rightarrow> string \<Rightarrow> (namespaceSync \<Rightarrow> string list) \<Rightarrow> namespaceSync list \<Rightarrow> key list" where
  "resourceRequests resourceNamespace resourceName getNames [] = []"
| "resourceRequests resourceNamespace resourceName getNames (n # ns) =
     (let isSource = (SourceNamespace (Spec n) = resourceNamespace);
          isTarget = shouldSyncToNamespace resourceNamespace n in
      (if (isSource \<or> isTarget) \<and> contains (getNames n) resourceName
       then [(metaNamespace (nsMeta n), metaName (nsMeta n))] else []) @
      resourceRequests resourceNamespace resourceName getNames ns)"

definition findNamespaceSyncsForResource ::
    "'w env \<Rightarrow> string \<Rightarrow> string \<Rightarrow> (namespaceSync \<Rightarrow> string list) \<Rightarrow> 'w st \<Rightarrow> key list \<times> 'w st" where
  "findNamespaceSyncsForResource E resourceNamespace resourceName getNames s =
     (case doListSyncs E s of
        (Inl err, s) \<Rightarrow> ([], s)
      | (Inr items, s) \<Rightarrow> (resourceRequests resourceNamespace resourceName getNames items, s))"

definition findNamespaceSyncsForSecret :: "'w env \<Rightarrow> secret \<Rightarrow> 'w st \<Rightarrow> key list \<times> 'w st" where
  "findNamespaceSyncsForSecret E secret =
     findNamespaceSyncsForResource E (metaNamespace (secMeta secret)) (metaName (secMeta secret))
       (\<lambda>n. SecretName (Spec n))"

definition findNamespaceSyncsForConfigMap :: "'w env \<Rightarrow> configMap \<Rightarrow> 'w st \<Rightarrow> key list \<times> 'w st" where
  "findNamespaceSyncsForConfigMap E cm =
     findNamespaceSyncsForResource E (metaNamespace (cmMeta cm)) (metaName (cmMeta cm))
       (\<lambda>n. ConfigMapName (Spec n))"

section \<open>Which requests\<close>

text \<open>A NamespaceSync a namespace matters to, and one an object of kind \<open>k\<close> matters to.\<close>

definition touchesNamespace :: "string \<Rightarrow> namespaceSync \<Rightarrow> bool" where
  "touchesNamespace ns n \<longleftrightarrow> SourceNamespace (Spec n) = ns \<or> targetsNamespace ns n"

definition touchesObject :: "kind \<Rightarrow> key \<Rightarrow> namespaceSync \<Rightarrow> bool" where
  "touchesObject k key n \<longleftrightarrow> touchesNamespace (fst key) n \<and> snd key \<in> set (specNames k n)"

lemma namespaceRequests_eq:
  "namespaceRequests ns items = map syncKey (filter (touchesNamespace ns) items)"
  by (induction items) (auto simp: touchesNamespace_def syncKey_def targetsNamespace_iff)

lemma resourceRequests_eq:
  "resourceRequests ns name getNames items =
     map syncKey (filter (\<lambda>n. touchesNamespace ns n \<and> name \<in> set (getNames n)) items)"
  by (induction items) (auto simp: touchesNamespace_def syncKey_def Let_def)

lemma resourceRequests_kind:
  "resourceRequests (fst key) (snd key) (specNames k) items = map syncKey (filter (touchesObject k key) items)"
  by (simp add: resourceRequests_eq touchesObject_def [abs_def])

section \<open>What a reconcile reads\<close>

fun readPlace :: "call \<Rightarrow> (kind \<times> key) option" where
  "readPlace (CGet k key q) = Some (k, key)"
| "readPlace (CRead k key q) = Some (k, key)"
| "readPlace c = None"

definition readsTouched :: "namespaceSync \<Rightarrow> call \<Rightarrow> bool" where
  "readsTouched n c \<longleftrightarrow> (\<forall>k key. readPlace c = Some (k, key) \<longrightarrow> touchesObject k key n)"

lemma syncRun_reads:
  assumes "syncRun E k (SourceNamespace (Spec n)) tgt name peers explicit cs r"
    and "targetsNamespace tgt n" and "name \<in> set (specNames k n)"
  shows "list_all (readsTouched n) cs"
  using assms(1)
  by cases (use assms(2,3) in \<open>auto simp: readsTouched_def touchesObject_def touchesNamespace_def isRead_def\<close>)

lemma listRun_all:
  "listRun R xs cs conf e \<Longrightarrow> (\<And>x cs r. x \<in> set xs \<Longrightarrow> R x cs r \<Longrightarrow> list_all P cs) \<Longrightarrow> list_all P cs"
  by (induction rule: listRun.induct) auto

lemma worklist_names: "item \<in> set (worklist n) \<Longrightarrow> snd item \<in> set (specNames (fst item) n)"
  by (auto simp: worklist_def)

lemma sweepRun_reads: "sweepRun E n peers nss cs os \<Longrightarrow> list_all (readsTouched n) cs"
proof (induction rule: sweepRun.induct)
  case (visited ns cs conf e nss ds os)
  have "list_all (readsTouched n) cs"
    using visited(2) by (rule listRun_all) (auto simp: resourceRun_def intro: syncRun_reads visited(1) worklist_names)
  with visited show ?case by simp
qed simp_all

lemma statusRun_reads: "retried (statusRun key P) cs r \<Longrightarrow> list_all (readsTouched n) cs"
  by (erule retried_all) (auto simp: statusRun_def readsTouched_def)

lemma finalizerRun_reads: "retried (finalizerRun E key) cs r \<Longrightarrow> list_all (readsTouched n) cs"
  by (erule retried_all) (auto simp: finalizerRun_def readsTouched_def)

lemma finalizerReady_reads: "finalizerReady E key n fs \<Longrightarrow> list_all (readsTouched n) fs"
  by (auto simp: finalizerReady_def intro: finalizerRun_reads split: if_splits)

lemma statusStep_reads: "statusStep E n synced failed conflicted cs r \<Longrightarrow> list_all (readsTouched n) cs"
  by (auto simp: statusStep_def intro: statusRun_reads split: if_splits)

lemma listing_reads [simp]:
  "readsTouched n (CGetSync key q)" "readsTouched n (CListNamespaces a)" "readsTouched n (CListSyncs b)"
  by (simp_all add: readsTouched_def)

lemma reconcileRun_reads:
  assumes "reconcileRun E interval key (CGetSync key (Inr n) # cs) d r"
    and "timeIsZero E (deletionTimestamp (nsMeta n))"
  shows "list_all (readsTouched n) cs"
  using assms(1)
  by cases (use assms(2) in \<open>auto dest: statusRun_reads finalizerRun_reads finalizerReady_reads statusStep_reads sweepRun_reads\<close>)

section \<open>Events the controller passes over\<close>

text \<open>
  The two predicates of controller-runtime as documented: an update event passes if the generations, or
  the annotations, differ; every other event passes. And the finalizer functions: they change nothing
  the predicates or the server's version check look at.
\<close>

definition changePredicates :: "(namespaceSync watchEvent \<Rightarrow> bool) \<Rightarrow> (namespaceSync watchEvent \<Rightarrow> bool) \<Rightarrow> bool" where
  "changePredicates generationChanged annotationChanged \<longleftrightarrow>
     (\<forall>ev. generationChanged ev \<longleftrightarrow>
        (case ev of UpdateEvent a b \<Rightarrow> generation (nsMeta a) \<noteq> generation (nsMeta b) | _ \<Rightarrow> True)) \<and>
     (\<forall>ev. annotationChanged ev \<longleftrightarrow>
        (case ev of
           UpdateEvent a b \<Rightarrow> mapEntries (annotations (nsMeta a)) \<noteq> mapEntries (annotations (nsMeta b)) | _ \<Rightarrow> True))"

fun noteworthy :: "namespaceSync watchEvent \<Rightarrow> bool" where
  "noteworthy (UpdateEvent a b) \<longleftrightarrow> generation (nsMeta a) \<noteq> generation (nsMeta b) \<or>
     mapEntries (annotations (nsMeta a)) \<noteq> mapEntries (annotations (nsMeta b))"
| "noteworthy (CreateEvent x) \<longleftrightarrow> True"
| "noteworthy (DeleteEvent x) \<longleftrightarrow> True"
| "noteworthy (GenericEvent x) \<longleftrightarrow> True"

lemma predicate_noteworthy:
  "changePredicates generationChanged annotationChanged \<Longrightarrow>
     namespaceSyncPredicate generationChanged annotationChanged ev = noteworthy ev"
  by (cases ev) (simp_all add: changePredicates_def namespaceSyncPredicate_def)

definition keepsTrigger :: "namespaceSync \<Rightarrow> namespaceSync \<Rightarrow> bool" where
  "keepsTrigger n m \<longleftrightarrow> Spec m = Spec n \<and> annotations (nsMeta m) = annotations (nsMeta n) \<and>
     resourceVersion (nsMeta m) = resourceVersion (nsMeta n)"

definition finalizerLaws :: "'w env \<Rightarrow> bool" where
  "finalizerLaws E \<longleftrightarrow> (\<forall>n f. keepsTrigger n (addFinalizer E n f) \<and> keepsTrigger n (removeFinalizer E n f))"

text \<open>
  What the API server documents of a write that replaces the version \<open>old\<close> by \<open>new\<close>: the version sent has
  the resource version of \<open>old\<close>; a status write does not change the spec; otherwise spec and annotations
  are those sent; the generation stays if the spec does. \<open>versionsIdentify\<close>: a resource version identifies
  a version, so that a read with that of \<open>old\<close> returned \<open>old\<close>.
\<close>

fun storedBy :: "call \<Rightarrow> namespaceSync \<Rightarrow> namespaceSync \<Rightarrow> bool" where
  "storedBy (CUpdateStatus m q) old new \<longleftrightarrow>
     resourceVersion (nsMeta m) = resourceVersion (nsMeta old) \<and> Spec new = Spec old \<and>
     annotations (nsMeta new) \<in> {annotations (nsMeta old), annotations (nsMeta m)} \<and>
     (Spec new = Spec old \<longrightarrow> generation (nsMeta new) = generation (nsMeta old))"
| "storedBy (CUpdateSync m q) old new \<longleftrightarrow>
     resourceVersion (nsMeta m) = resourceVersion (nsMeta old) \<and> Spec new = Spec m \<and>
     annotations (nsMeta new) = annotations (nsMeta m) \<and>
     (Spec new = Spec old \<longrightarrow> generation (nsMeta new) = generation (nsMeta old))"
| "storedBy c old new \<longleftrightarrow> False"

definition versionsIdentify :: "call list \<Rightarrow> namespaceSync \<Rightarrow> bool" where
  "versionsIdentify cs old \<longleftrightarrow>
     (\<forall>key n. CGetSync key (Inr n) \<in> set cs \<longrightarrow> resourceVersion (nsMeta n) = resourceVersion (nsMeta old) \<longrightarrow> n = old)"

text \<open>Every write of the NamespaceSync keeps the spec, annotations and version of one read before, or of one in \<open>R\<close>.\<close>

fun basedOn :: "namespaceSync set \<Rightarrow> call list \<Rightarrow> bool" where
  "basedOn R [] \<longleftrightarrow> True"
| "basedOn R (CGetSync key (Inr n) # cs) \<longleftrightarrow> basedOn (insert n R) cs"
| "basedOn R (CUpdateStatus m q # cs) \<longleftrightarrow> (\<exists>n \<in> R. keepsTrigger n m) \<and> basedOn R cs"
| "basedOn R (CUpdateSync m q # cs) \<longleftrightarrow> (\<exists>n \<in> R. keepsTrigger n m) \<and> basedOn R cs"
| "basedOn R (c # cs) \<longleftrightarrow> basedOn R cs"

lemma basedOn_mono: "basedOn R cs \<Longrightarrow> R \<subseteq> S \<Longrightarrow> basedOn S cs"
proof (induction R cs arbitrary: S rule: basedOn.induct)
  case (2 R key n cs)
  have "basedOn (insert n S) cs" by (rule 2(1)) (use 2(2,3) in auto)
  then show ?case by simp
next
  case (3 R m q cs)
  then show ?case by (simp add: subset_iff) blast
next
  case (4 R m q cs)
  then show ?case by (simp add: subset_iff) blast
qed simp_all

lemma basedOn_append: "basedOn R cs \<Longrightarrow> basedOn R ds \<Longrightarrow> basedOn R (cs @ ds)"
proof (induction R cs rule: basedOn.induct)
  case (2 R key n cs)
  then show ?case using basedOn_mono [of R ds "insert n R"] by auto
qed simp_all

interpretation based: call_protocol "basedOn R"
  by unfold_locales (simp_all add: basedOn_append)

lemma basedOn_unwritten: "list_all (\<lambda>c. \<not> syncWrite c) cs \<Longrightarrow> basedOn R cs"
  by (induction R cs rule: basedOn.induct) auto

lemma own_write_unnoticed:
  "basedOn R (pre @ c # post) \<Longrightarrow> (\<forall>n \<in> R. resourceVersion (nsMeta n) = resourceVersion (nsMeta old) \<longrightarrow> n = old) \<Longrightarrow>
     versionsIdentify pre old \<Longrightarrow> storedBy c old new \<Longrightarrow> \<not> noteworthy (UpdateEvent old new)"
proof (induction R pre rule: basedOn.induct)
  case (1 R)
  then show ?case by (cases c) (auto simp: keepsTrigger_def)
next
  case (2 R key n cs)
  have "resourceVersion (nsMeta n) = resourceVersion (nsMeta old) \<longrightarrow> n = old" and "versionsIdentify cs old"
    using 2(4) unfolding versionsIdentify_def by (metis list.set_intros(1), metis list.set_intros(2))
  with 2 show ?case by simp
qed (simp_all add: versionsIdentify_def)

lemma syncRun_unwritten: "syncRun E k src tgt name peers explicit cs r \<Longrightarrow> list_all (\<lambda>c. \<not> syncWrite c) cs"
  by (induction rule: syncRun.induct) (auto simp: isRead_def)

lemma retried_basedOn:
  assumes "\<And>cs r. R cs r \<Longrightarrow> basedOn S cs"
  shows "retried R cs r \<Longrightarrow> basedOn S cs"
  by (induction rule: retried.induct) (auto intro: assms basedOn_append)

lemma statusRun_basedOn: "retried (statusRun key P) cs r \<Longrightarrow> basedOn S cs"
  by (rule retried_basedOn) (auto simp: statusRun_def keepsTrigger_def)

lemma finalizerRun_basedOn: "finalizerLaws E \<Longrightarrow> retried (finalizerRun E key) cs r \<Longrightarrow> basedOn S cs"
  by (erule retried_basedOn [rotated]) (auto simp: finalizerRun_def finalizerLaws_def)

lemma finalizerReady_basedOn: "finalizerLaws E \<Longrightarrow> finalizerReady E key n fs \<Longrightarrow> basedOn S fs"
  using finalizerRun_basedOn by (fastforce simp: finalizerReady_def split: if_splits)

lemma releaseRun_basedOn:
  assumes "finalizerLaws E" and "releaseRun E n cs r"
  shows "basedOn {n} cs"
proof (cases "list_ex (callFailed E) cs")
  case True
  then show ?thesis using assms(2) by (intro basedOn_unwritten) (auto simp: releaseRun_def list_all_iff list_ex_iff)
next
  case False
  then obtain pre q where cs: "cs = pre @ [CUpdateSync (removeFinalizer E n finalizerName) q]" "\<not> list_ex syncWrite pre"
    using assms(2) by (auto simp: releaseRun_def)
  have "basedOn {n} pre" using cs(2) by (intro basedOn_unwritten) (auto simp: list_all_iff list_ex_iff)
  then show ?thesis using assms(1) unfolding cs(1) by (intro basedOn_append) (simp_all add: finalizerLaws_def)
qed

lemma sweepRun_based: "sweepRun E n peers nss cs os \<Longrightarrow> basedOn S cs"
  by (erule based.sweepRun_keeps) (auto simp: resourceRun_def intro: basedOn_unwritten dest: syncRun_unwritten)

lemma reconcileRun_basedOn:
  assumes "reconcileRun E interval key cs d r" and laws: "finalizerLaws E"
  shows "basedOn {} cs"
  using assms(1)
proof cases
  case (deleting n ds)
  then show ?thesis
    using releaseRun_basedOn [OF laws, of n ds r] by (auto simp: deletionRun_def split: if_splits)
next
  case (invalid n err ds r')
  then show ?thesis using statusRun_basedOn by simp
next
  case (unfinalized n fs e)
  then show ?thesis using finalizerRun_basedOn [OF laws] by simp
next
  case (namespaces_unread n fs e)
  then have "basedOn {n} fs" using finalizerReady_basedOn [OF laws] by simp
  then show ?thesis using namespaces_unread(1) by (simp add: basedOn_append)
next
  case (peers_unread n fs nss e)
  then have "basedOn {n} fs" using finalizerReady_basedOn [OF laws] by simp
  then show ?thesis using peers_unread(1) by (simp add: basedOn_append)
next
  case (reconciled n fs nss peers items ds os synced failed conflicted us)
  have "basedOn {n} fs" using reconciled finalizerReady_basedOn [OF laws] by simp
  moreover have "basedOn {n} ds" using reconciled sweepRun_based by blast
  moreover have "basedOn {n} us" using reconciled statusRun_basedOn by (auto simp: statusStep_def split: if_splits)
  moreover have "basedOn {n} [CListNamespaces (Inr nss), CListSyncs (Inr items)]" by simp
  ultimately have "basedOn {n} (fs @ [CListNamespaces (Inr nss), CListSyncs (Inr items)] @ ds @ us)"
    by (blast intro: basedOn_append)
  then show ?thesis using reconciled(1) by simp
qed simp_all

end
