(* ===== verification/MemLaws.thy ===== *)
theory MemLaws
  imports EventMap
begin

text \<open>
  The in-memory environment satisfies every hypothesis the properties put on an environment, and a
  small cluster for the witnesses.
\<close>

lemma memEnv_getsAsked: "getsAsked memEnv"
  by (auto simp: getsAsked_def memGet_def split: option.splits if_splits)

lemma findSync_key: "findSync key ns = Some n \<Longrightarrow> syncKey n = key"
  by (induction ns) (auto split: if_splits)

lemma memEnv_syncsAsked: "syncsAsked memEnv"
  by (auto simp: syncsAsked_def memGetSync_def findSync_key split: option.splits)

lemma memEnv_listsDistinct: "listsDistinct memEnv"
  by (auto simp: listsDistinct_def)

lemma retryN_attempts: "attempts f s (fst (retryN k f s)) (snd (retryN k f s))"
proof (induction k arbitrary: s)
  case (Suc k)
  then show ?case
    by (cases "f s"; cases "fst (f s)") (auto intro: attempts.intros)
qed (auto intro: attempts.intros)

lemma memEnv_clientLaws: "clientLaws memEnv"
  by (simp add: clientLaws_def memEnv_getsAsked memEnv_syncsAsked memEnv_listsDistinct retriesRuns_def
      retryN_attempts)

lemma normMap_iff: "normMap a = normMap b \<longleftrightarrow> mapEntries a = mapEntries b"
  by (simp add: normMap_def)

lemma normMeta_iff:
  "m\<lparr>labels := None, annotations := None\<rparr> = m'\<lparr>labels := None, annotations := None\<rparr> \<Longrightarrow>
     normMeta m = normMeta m' \<longleftrightarrow>
       mapEntries (labels m) = mapEntries (labels m') \<and> mapEntries (annotations m) = mapEntries (annotations m')"
  by (cases m; cases m') (auto simp: normMeta_def normMap_iff)

lemma normObj_secret: "sameFrame (ObjSecret x) (ObjSecret y) \<Longrightarrow>
    normObj (ObjSecret x) = normObj (ObjSecret y) \<longleftrightarrow> sameContents (ObjSecret x) (ObjSecret y)"
  using normMeta_iff [of "secMeta x" "secMeta y"]
  by (cases x; cases y) (auto simp: sameFrame_def sameContents_def payloadEntries_def normMap_iff
      getLabels_def getAnnotations_def)

lemma normObj_configMap: "sameFrame (ObjConfigMap x) (ObjConfigMap y) \<Longrightarrow>
    normObj (ObjConfigMap x) = normObj (ObjConfigMap y) \<longleftrightarrow> sameContents (ObjConfigMap x) (ObjConfigMap y)"
  using normMeta_iff [of "cmMeta x" "cmMeta y"]
  by (cases x; cases y) (auto simp: sameFrame_def sameContents_def payloadEntries_def normMap_iff
      getLabels_def getAnnotations_def)

lemma memEnv_semanticEquality: "semanticEquality memEnv"
  unfolding semanticEquality_def
proof (intro allI impI)
  fix a b :: obj
  assume "sameFrame a b"
  then show "semDeepEqual memEnv a b = sameContents a b"
    using normObj_secret normObj_configMap by (cases a; cases b) (auto simp: sameFrame_def)
qed

section \<open>A small cluster\<close>

text \<open>
  The NamespaceSync \<open>ops/a\<close>, with its finalizer, syncs the Secret \<open>s\<close> of \<open>alpha\<close> to every namespace:
  to \<open>team\<close>, as the other two are its source and a system namespace.
\<close>

definition demoSync :: namespaceSync where
  "demoSync = (sampleSync ''a'' ''alpha'' [] [''s''])\<lparr>nsMeta :=
     (sampleMeta ''ops'' ''a'' None)\<lparr>finalizers := [finalizerName]\<rparr>\<rparr>"

definition demoMem :: mem where
  "demoMem = \<lparr>memObj = (\<lambda>k key. if k = KSecret \<and> key = (''alpha'', ''s'')
       then Some (sampleSecret ''alpha'' ''s'' None) else None),
     memSyncs = [demoSync], memNamespaces = [''alpha'', ''team'', ''kube-system''], memRev = 7\<rparr>"

abbreviation demoRun :: "(int \<times> goerr option) \<times> mem st" where
  "demoRun \<equiv> Reconcile memEnv ReconcileInterval (''ops'', ''a'') (memStart demoMem)"

text \<open>The definitions a run of the small cluster unfolds.\<close>

lemmas run_defs = Reconcile_def doGetSync_def perform_def memGetSync_def syncKey_def reconcileSpec_def 
  doListNamespaces_def listPeers_def doListSyncs_def Let_def timeNow_def isSystemNamespace_def systemNamespaces_def targetsNamespace_def
  syncResources_def syncSecret_def doGet_def memGet_def sourceConflict_def
  copyLabelsAndAnnotations_def createOrUpdateResource_def newSecret_def doCreate_def memCreate_def
  memPut_def observeDuration_def setManaged_def recordOutcome_def updateStatus_def updateStatusOnce_def
  doUpdateStatus_def memUpdateSync_def recordSyncSuccess_def incCounter_def recordEvent_def
  objKey_def getNamespace_def getName_def emptyMeta_def validateNamespaceSync_def mapRange_def

lemmas demo_defs = run_defs demoMem_def demoSync_def memStart_def eval_nat_numeral

lemma demo_start [simp]: "calls (memStart w) = []"
  by (simp add: memStart_def)

lemma demoRun_result: "fst demoRun = (ReconcileInterval, None)"
  by (simp add: demo_defs)

lemma demoRun_reads: "calls (snd demoRun) = CGetSync (''ops'', ''a'') (Inr demoSync) # tl (calls (snd demoRun))"
  by (simp add: demo_defs)

lemma demoRun_writes: "map isWrite (calls (snd demoRun)) = [False, False, False, False, False, True, False, False]"
  by (simp add: demo_defs)

lemma demoRun_split:
  obtains s where "demoRun = ((ReconcileInterval, None), s)" and "s = snd demoRun"
  using demoRun_result by (metis prod.collapse)

text \<open>The copy a sync into \<open>team\<close> makes, and the environment's own bookkeeping on it.\<close>

lemma sorted_list_of_fmap_empty [simp]: "sorted_list_of_fmap fmempty = []"
  by (simp add: sorted_list_of_fmap_def sorted_list_of_fset.rep_eq)

lemmas copy_defs = demo_defs syncKind_def copyConflictGuard_def isManagedCopy_def getAnnotations_def sampleSecret_def
  mapEntries_def normMap_def normMeta_def keepLastSync_def copyAnnotations_def AnnotationLastSync_def
  AnnotationSourceNamespace_def AnnotationSourceName_def doUpdate_def memUpdate_def

definition madeCopy :: obj where
  "madeCopy = ObjSecret \<lparr>secMeta = emptyMeta\<lparr>metaName := ''s'', metaNamespace := ''team'', labels := Some fmempty,
       annotations := Some (fmupd AnnotationLastSync (rfc3339 sampleTime) (fmupd AnnotationSourceName ''s''
         (fmupd AnnotationSourceNamespace ''alpha'' fmempty)))\<rparr>,
     secImmutable = None, secData = Some (fmupd ''k'' ''v'' fmempty), secStringData = None, secType = ''Opaque''\<rparr>"

lemma stamped_same: "sameContents (stamped w z) z" "getName (stamped w z) = getName z"
  "objKey (stamped w z) = objKey z" "objKind (stamped w z) = objKind z"
  by (cases z; simp add: stamped_def sameContents_def getLabels_def getAnnotations_def getName_def objKey_def getNamespace_def)+

end
