(* ===== verification/ReconcileProperties.thy ===== *)
theory ReconcileProperties
  imports MemLaws
begin

text \<open>
  The properties of a reconcile as a whole, each with a witness that applies it to a run on the small
  cluster of \<open>MemLaws\<close>.
\<close>

section \<open>A reconcile as a whole\<close>

text \<open>
  C8. Refinement: with a client that answers what it is asked, every reconcile is one of the runs of the
  specification \<open>reconcileRun\<close>, with the calls it makes, the delay and the error it returns.
\<close>

theorem reconcile_refines_runs:
  assumes "clientLaws E"
  shows "case Reconcile E interval key s of ((d, r), s') \<Rightarrow>
    \<exists>cs. calls s' = calls s @ cs \<and> reconcileRun E interval key cs d r"
  using Reconcile_run [OF assms, of interval key s] by (auto split: prod.split)

theorem reconcile_refines_runs_witness:
  "reconcileRun memEnv ReconcileInterval (''ops'', ''a'') (calls (snd demoRun)) ReconcileInterval None"
proof -
  obtain s where s: "demoRun = ((ReconcileInterval, None), s)" "s = snd demoRun" by (rule demoRun_split)
  from reconcile_refines_runs [OF memEnv_clientLaws, where interval = ReconcileInterval and
      key = "(''ops'', ''a'')" and s = "memStart demoMem"]
  show ?thesis unfolding s(1) by simp
qed

text \<open>
  C1. With a client that answers what it is asked, a reconcile writes Secrets and ConfigMaps only as \<open>reconcileWrites\<close>
  allows: for a live NamespaceSync with a valid spec, every create, update and delete directly follows
  the read that justifies it, at a place its spec syncs, and respects the conflict policy towards the
  peers listed in the same reconcile; for a deleted one, only guarded deletions of unneeded copies.
\<close>

theorem reconcile_writes_guarded:
  assumes "clientLaws E"
  shows "case Reconcile E interval key s of ((d, r), s') \<Rightarrow>
    \<exists>cs. calls s' = calls s @ cs \<and> reconcileWrites E key cs"
proof -
  obtain d r s' where run: "Reconcile E interval key s = ((d, r), s')" by (metis surj_pair)
  from Reconcile_run [OF assms run] show ?thesis unfolding run by (auto dest: reconcileRun_writes)
qed

theorem reconcile_writes_guarded_witness:
  "reconcileWrites memEnv (''ops'', ''a'') (calls (snd demoRun)) \<and> list_ex isWrite (calls (snd demoRun))"
proof -
  obtain s where s: "demoRun = ((ReconcileInterval, None), s)" "s = snd demoRun" by (rule demoRun_split)
  have "True \<in> set (map isWrite (calls (snd demoRun)))" unfolding demoRun_writes by simp
  with reconcile_writes_guarded [OF memEnv_clientLaws, where interval = ReconcileInterval and
      key = "(''ops'', ''a'')" and s = "memStart demoMem"]
  show ?thesis unfolding s(1) by (auto simp: list_ex_iff)
qed

lemma precededBy_in: "precededBy T W cs \<Longrightarrow> c \<in> set cs \<Longrightarrow> T c \<Longrightarrow> \<exists>p. W p c"
  unfolding precededBy_def by (metis in_set_conv_decomp)

lemma reconcileWrites_place:
  assumes "reconcileWrites E key cs" and "c \<in> set cs" and "c = CCreate z p \<or> c = CUpdate z q"
  shows "\<exists>n. hd cs = CGetSync key (Inr n) \<and>
    syncsInto (typeName (objKind z)) (SourceNamespace (Spec n)) (getNamespace z) (getName z) n"
proof -
  have w: "isWrite c" "\<not> isDelete c" using assms(3) by auto
  with assms(1,2) obtain n peers where "hd cs = CGetSync key (Inr n)" "precededBy isWrite (writeOK E n peers) cs"
    unfolding reconcileWrites_def list_all_iff by (metis (no_types, lifting))
  with precededBy_in [OF this(2) assms(2) w(1)] assms(3) show ?thesis
    by (auto simp: placeOK_def objKey_def)
qed

text \<open>
  C19. A reconcile never creates or updates an object outside the namespaces its NamespaceSync targets:
  not in a system namespace, not in its own source namespace, not in an excluded one, not outside
  \<open>targetNamespaces\<close> when those are listed; and only under a name it lists and its filters admit.
\<close>

theorem writes_stay_in_targets:
  assumes "clientLaws E"
  shows "case Reconcile E interval key s of ((d, r), s') \<Rightarrow>
    \<exists>cs. calls s' = calls s @ cs \<and>
      (\<forall>c z p q. c \<in> set cs \<and> (c = CCreate z p \<or> c = CUpdate z q) \<longrightarrow>
        (\<exists>n. hd cs = CGetSync key (Inr n) \<and>
           getNamespace z \<notin> set systemNamespaces \<and> getNamespace z \<noteq> SourceNamespace (Spec n) \<and>
           getNamespace z \<notin> set (Exclude (Spec n)) \<and>
           (TargetNamespaces (Spec n) = [] \<or> getNamespace z \<in> set (TargetNamespaces (Spec n))) \<and>
           syncsName n (typeName (objKind z)) (getName z)))"
proof -
  obtain d r s' where run: "Reconcile E interval key s = ((d, r), s')" by (metis surj_pair)
  obtain cs where cs: "calls s' = calls s @ cs" "reconcileWrites E key cs"
    using Reconcile_run [OF assms run] reconcileRun_writes by blast
  show ?thesis
    unfolding run prod.case
    by (intro exI [of _ cs] conjI cs(1) allI impI)
      (use reconcileWrites_place [OF cs(2)] in \<open>fastforce simp: syncsInto_def targetsNamespace_iff\<close>)
qed

theorem writes_stay_in_targets_witness:
  "\<exists>cs. calls (snd demoRun) = cs \<and> list_ex isWrite cs \<and>
     (\<forall>c z p q. c \<in> set cs \<and> (c = CCreate z p \<or> c = CUpdate z q) \<longrightarrow> getNamespace z \<notin> set systemNamespaces)"
proof -
  obtain s where s: "demoRun = ((ReconcileInterval, None), s)" "s = snd demoRun" by (rule demoRun_split)
  have "True \<in> set (map isWrite (calls (snd demoRun)))" unfolding demoRun_writes by simp
  then have "list_ex isWrite (calls (snd demoRun))" by (auto simp: list_ex_iff)
  with writes_stay_in_targets [OF memEnv_clientLaws, where interval = ReconcileInterval and
      key = "(''ops'', ''a'')" and s = "memStart demoMem"]
  show ?thesis unfolding s(1) by fastforce
qed

text \<open>
  C13. No Secret or ConfigMap is written before the finalizer is in place: among the calls before any
  create, update or delete of a reconcile is a read of the NamespaceSync that shows the finalizer, or
  the successful write that added it. So a deletion always finds the copies to clean up.
\<close>

theorem finalizer_before_writes:
  assumes "clientLaws E"
  shows "case Reconcile E interval key s of ((d, r), s') \<Rightarrow>
    \<forall>a c b. calls s' = calls s @ a @ c # b \<and> isWrite c \<longrightarrow> finalizerHeld E key a"
proof -
  obtain d r s' where run: "Reconcile E interval key s = ((d, r), s')" by (metis surj_pair)
  from Reconcile_run [OF assms run] show ?thesis unfolding run by (auto dest: reconcileRun_finalizer)
qed

theorem finalizer_before_writes_witness:
  "finalizerHeld memEnv (''ops'', ''a'') (take 5 (calls (snd demoRun)))"
proof -
  obtain s where s: "demoRun = ((ReconcileInterval, None), s)" "s = snd demoRun" by (rule demoRun_split)
  have len: "length (calls (snd demoRun)) = 8"
    using arg_cong [OF demoRun_writes, of length] by simp
  have "map isWrite (calls (snd demoRun)) ! 5" unfolding demoRun_writes by (simp add: eval_nat_numeral)
  with len have "isWrite (calls (snd demoRun) ! 5)" by simp
  moreover have "calls (snd demoRun) = take 5 (calls (snd demoRun)) @ calls (snd demoRun) ! 5 # drop 6 (calls (snd demoRun))"
    using id_take_nth_drop [of 5 "calls (snd demoRun)"] len by (simp add: eval_nat_numeral)
  moreover have "\<forall>a c b. calls (snd demoRun) = a @ c # b \<and> isWrite c \<longrightarrow> finalizerHeld memEnv (''ops'', ''a'') a"
    using finalizer_before_writes [OF memEnv_clientLaws, where interval = ReconcileInterval and
      key = "(''ops'', ''a'')" and s = "memStart demoMem"] unfolding s(1) by simp
  ultimately show ?thesis by blast
qed

lemma reconcile_from:
  assumes "clientLaws E" and "Reconcile E interval key s = ((d, r), s')"
    and "calls s' = calls s @ CGetSync key (Inr n) # cs"
  shows "reconcileRun E interval key (CGetSync key (Inr n) # cs) d r"
  using Reconcile_run [OF assms(1,2)] assms(3) by auto

text \<open>
  C18. An invalid spec is reported and nothing is synced: if the NamespaceSync read is live and its spec
  invalid, no Secret, ConfigMap or finalizer is written, the validation error is returned as a terminal
  one without a delay, and all the reconcile does is (retry to) write a status that is not Ready, clears
  the results of earlier syncs and carries the error's message.
\<close>

theorem invalid_spec_writes_nothing:
  assumes "clientLaws E"
  shows "case Reconcile E interval key s of ((d, r), s') \<Rightarrow>
    \<forall>n cs. calls s' = calls s @ CGetSync key (Inr n) # cs \<and> timeIsZero E (deletionTimestamp (nsMeta n)) \<and>
      \<not> validSpec n \<longrightarrow>
      (\<exists>err r'. validateNamespaceSync E n = Some err \<and> d = 0 \<and> r = Some (terminalError E err) \<and>
         retried (statusRun key (reportsInvalid E n err)) cs r')"
proof -
  obtain d r s' where run: "Reconcile E interval key s = ((d, r), s')" by (metis surj_pair)
  show ?thesis unfolding run prod.case
    by (intro allI impI, elim conjE) (rule reconcileRun_invalid [OF reconcile_from [OF assms run]])
qed

definition badMem :: mem where
  "badMem = emptyMem\<lparr>memSyncs := [sampleSync ''a'' ''alpha'' [] []]\<rparr>"

abbreviation badRun :: "(int \<times> goerr option) \<times> mem st" where
  "badRun \<equiv> Reconcile memEnv ReconcileInterval (''ops'', ''a'') (memStart badMem)"

lemma badRun_reads: "calls (snd badRun) = CGetSync (''ops'', ''a'') (Inr (sampleSync ''a'' ''alpha'' [] [])) # tl (calls (snd badRun))"
  by (simp add: run_defs badMem_def emptyMem_def memStart_def updateInvalidSpecStatus_def updateInvalidSpecStatusOnce_def
      eval_nat_numeral)

theorem invalid_spec_writes_nothing_witness:
  "\<exists>err. snd (fst badRun) = Some (terminalError memEnv err)"
proof -
  obtain d r s where run: "badRun = ((d, r), s)" by (metis surj_pair)
  have "calls s = CGetSync (''ops'', ''a'') (Inr (sampleSync ''a'' ''alpha'' [] [])) # tl (calls s)"
    using badRun_reads unfolding run by simp
  moreover have "\<not> validSpec (sampleSync ''a'' ''alpha'' [] [])" by (simp add: validSpec_def)
  moreover have "timeIsZero memEnv (deletionTimestamp (nsMeta (sampleSync ''a'' ''alpha'' [] [])))" by simp
  moreover note invalid_spec_writes_nothing [OF memEnv_clientLaws, where interval = ReconcileInterval and
      key = "(''ops'', ''a'')" and s = "memStart badMem", unfolded run prod.case demo_start append_Nil]
  ultimately show ?thesis unfolding run fst_conv snd_conv by blast
qed

section \<open>The reported status\<close>

text \<open>
  C4. The status is what happened. If a reconcile of a NamespaceSync that is not being deleted ends well
  (with the requeue delay), it has visited every targeted namespace of the list, each with one sync of
  the resources in the worklist, whatever happened in the others; and its last call is a successful
  status write whose synced and failed namespaces, messages and Ready condition are those of these visits.
\<close>

theorem reported_status_is_outcome:
  assumes "clientLaws E"
  shows "case Reconcile E interval key s of ((d, r), s') \<Rightarrow>
    \<forall>n cs. calls s' = calls s @ CGetSync key (Inr n) # cs \<and> r = None \<and> d \<noteq> 0 \<and> deletionTimestamp (nsMeta n) = None \<longrightarrow>
      (\<exists>nss items peers os latest m pre.
         CListNamespaces (Inr nss) \<in> set cs \<and> CListSyncs (Inr items) \<in> set cs \<and> set peers = livePeers E n items \<and>
         outcomesIn E n peers nss os cs \<and> cs = pre @ [CGetSync key (Inr latest), CUpdateStatus m None] \<and>
         statusSays E latest os m)"
proof -
  obtain d r s' where run: "Reconcile E interval key s = ((d, r), s')" by (metis surj_pair)
  show ?thesis unfolding run prod.case
  proof (intro allI impI, elim conjE)
    fix n cs assume a: "calls s' = calls s @ CGetSync key (Inr n) # cs" "r = None" "d \<noteq> 0" "deletionTimestamp (nsMeta n) = None"
    show "\<exists>nss items peers os latest m pre.
         CListNamespaces (Inr nss) \<in> set cs \<and> CListSyncs (Inr items) \<in> set cs \<and> set peers = livePeers E n items \<and>
         outcomesIn E n peers nss os cs \<and> cs = pre @ [CGetSync key (Inr latest), CUpdateStatus m None] \<and>
         statusSays E latest os m"
      by (rule reconcileRun_reported [OF reconcile_from [OF assms run a(1), unfolded a(2)] a(3,4)])
  qed
qed

theorem reported_status_is_outcome_witness:
  "\<exists>nss peers os latest m pre.
     calls (snd demoRun) = pre @ [CGetSync (''ops'', ''a'') (Inr latest), CUpdateStatus m None] \<and>
     CListNamespaces (Inr nss) \<in> set (calls (snd demoRun)) \<and>
     outcomesIn memEnv demoSync peers nss os (tl (calls (snd demoRun))) \<and> statusSays memEnv latest os m"
proof -
  obtain s where s: "demoRun = ((ReconcileInterval, None), s)" "s = snd demoRun" by (rule demoRun_split)
  have reads: "calls s = CGetSync (''ops'', ''a'') (Inr demoSync) # tl (calls s)"
    using demoRun_reads unfolding s(1) by simp
  have d: "deletionTimestamp (nsMeta demoSync) = None" by (simp add: demoSync_def)
  have i: "ReconcileInterval \<noteq> 0" by (simp add: ReconcileInterval_def)
  note H = reported_status_is_outcome [OF memEnv_clientLaws, where interval = ReconcileInterval and
      key = "(''ops'', ''a'')" and s = "memStart demoMem", unfolded s(1) prod.case demo_start append_Nil]
  from H [THEN spec, THEN spec, THEN mp, OF conjI [OF reads conjI [OF refl conjI [OF i d]]]] obtain nss items peers os latest m pre where r: "CListNamespaces (Inr nss) \<in> set (tl (calls s))"
    "outcomesIn memEnv demoSync peers nss os (tl (calls s))" "statusSays memEnv latest os m"
    "tl (calls s) = pre @ [CGetSync (''ops'', ''a'') (Inr latest), CUpdateStatus m None]" by blast
  from reads r have "calls s = (CGetSync (''ops'', ''a'') (Inr demoSync) # pre) @ [CGetSync (''ops'', ''a'') (Inr latest), CUpdateStatus m None]"
    "CListNamespaces (Inr nss) \<in> set (calls s)" by (simp, metis list.set_intros(2))
  with r show ?thesis unfolding s(1) snd_conv by blast
qed

lemma outcome_synced:
  assumes "outcomesIn E n peers nss os cs" and "ns \<in> set (map fst (filter isSynced os))" and "syncsName n (typeName k) name"
  shows "\<exists>pre ds post. cs = pre @ ds @ post \<and> syncRun E k (SourceNamespace (Spec n)) ns name peers (listsExplicitly ns n) ds None"
proof -
  have "(ns, [], None) \<in> set os" using assms(2) by (auto simp: isSynced_def)
  with assms(1) obtain pre ds post where ds: "cs = pre @ ds @ post" "listRun (resourceRun E n ns peers) (worklist n) ds [] None"
    unfolding outcomesIn_def by blast
  have "(k, name) \<in> set (worklist n)" using assms(3) by (simp add: worklist_iff)
  from listRun_items [OF ds(2) this] obtain a es b where "ds = a @ es @ b" "resourceRun E n ns peers (k, name) es None" by blast
  with ds(1) have "cs = (pre @ a) @ es @ (b @ post)"
    and "syncRun E k (SourceNamespace (Spec n)) ns name peers (listsExplicitly ns n) es None"
    by (simp_all add: resourceRun_def)
  then show ?thesis by blast
qed

text \<open>
  C16. A namespace reported as synced is synced: every Secret and ConfigMap the NamespaceSync lists and
  its filters admit had a run in that namespace, in this reconcile, that ended without an error.
\<close>

theorem reported_synced_is_synced:
  assumes "clientLaws E"
  shows "case Reconcile E interval key s of ((d, r), s') \<Rightarrow>
    \<forall>n cs. calls s' = calls s @ CGetSync key (Inr n) # cs \<and> r = None \<and> d \<noteq> 0 \<and> deletionTimestamp (nsMeta n) = None \<longrightarrow>
      (\<exists>peers m. last cs = CUpdateStatus m None \<and>
         (\<forall>ns k name. ns \<in> set (SyncedNamespaces (Status m)) \<and> syncsName n (typeName k) name \<longrightarrow>
            (\<exists>pre ds post. cs = pre @ ds @ post \<and>
               syncRun E k (SourceNamespace (Spec n)) ns name peers (listsExplicitly ns n) ds None)))"
proof -
  obtain d r s' where run: "Reconcile E interval key s = ((d, r), s')" by (metis surj_pair)
  show ?thesis unfolding run prod.case
  proof (intro allI impI, elim conjE)
    fix n cs assume a: "calls s' = calls s @ CGetSync key (Inr n) # cs" "r = None" "d \<noteq> 0" "deletionTimestamp (nsMeta n) = None"
    have "reconcileRun E interval key (CGetSync key (Inr n) # cs) d None"
      using reconcile_from [OF assms run a(1)] a(2) by simp
    from reconcileRun_reported [OF this a(3,4)] obtain nss peers os latest m pre where
      o: "outcomesIn E n peers nss os cs" and cs: "cs = pre @ [CGetSync key (Inr latest), CUpdateStatus m None]"
      and st: "statusSays E latest os m" by blast
    have "SyncedNamespaces (Status m) = map fst (filter isSynced os)" using st by (simp add: statusSays_def)
    then show "\<exists>peers m. last cs = CUpdateStatus m None \<and>
         (\<forall>ns k name. ns \<in> set (SyncedNamespaces (Status m)) \<and> syncsName n (typeName k) name \<longrightarrow>
            (\<exists>pre ds post. cs = pre @ ds @ post \<and>
               syncRun E k (SourceNamespace (Spec n)) ns name peers (listsExplicitly ns n) ds None))"
      using outcome_synced [OF o] cs by (intro exI [of _ peers] exI [of _ m]) auto
  qed
qed

lemma demoRun_status:
  "case last (calls (snd demoRun)) of CUpdateStatus m q \<Rightarrow> SyncedNamespaces (Status m) = [''team''] | _ \<Rightarrow> False"
  by (simp add: demo_defs)

theorem reported_synced_is_synced_witness:
  "\<exists>peers pre ds post. calls (snd demoRun) = pre @ ds @ post \<and>
     syncRun memEnv KSecret ''alpha'' ''team'' ''s'' peers False ds None"
proof -
  obtain s where s: "demoRun = ((ReconcileInterval, None), s)" "s = snd demoRun" by (rule demoRun_split)
  have reads: "calls s = CGetSync (''ops'', ''a'') (Inr demoSync) # tl (calls s)"
    using demoRun_reads unfolding s(1) by simp
  have d: "deletionTimestamp (nsMeta demoSync) = None" by (simp add: demoSync_def)
  have i: "ReconcileInterval \<noteq> 0" by (simp add: ReconcileInterval_def)
  note H = reported_synced_is_synced [OF memEnv_clientLaws, where interval = ReconcileInterval and
      key = "(''ops'', ''a'')" and s = "memStart demoMem", unfolded s(1) prod.case demo_start append_Nil]
  from H [THEN spec, THEN spec, THEN mp, OF conjI [OF reads conjI [OF refl conjI [OF i d]]]] obtain peers m where m: "last (tl (calls s)) = CUpdateStatus m None"
    and all: "\<And>ns k name. ns \<in> set (SyncedNamespaces (Status m)) \<Longrightarrow> syncsName demoSync (typeName k) name \<Longrightarrow>
      \<exists>pre ds post. tl (calls s) = pre @ ds @ post \<and>
        syncRun memEnv k (SourceNamespace (Spec demoSync)) ns name peers (listsExplicitly ns demoSync) ds None" by blast
  have "tl (calls s) \<noteq> []" using demoRun_writes unfolding s(1) by (cases "calls s") auto
  then have "last (calls s) = CUpdateStatus m None" using m by (metis last_tl)
  then have team: "''team'' \<in> set (SyncedNamespaces (Status m))" using demoRun_status unfolding s(1) by simp
  have name: "syncsName demoSync (typeName KSecret) ''s''" by (simp add: syncsName_def demoSync_def)
  have spec: "SourceNamespace (Spec demoSync) = ''alpha''" "listsExplicitly ''team'' demoSync = False"
    by (simp_all add: demoSync_def listsExplicitly_def)
  from all [OF team name, unfolded spec] obtain pre ds post where "tl (calls s) = pre @ ds @ post"
    and run: "syncRun memEnv KSecret ''alpha'' ''team'' ''s'' peers False ds None" by blast
  with reads have "calls s = (CGetSync (''ops'', ''a'') (Inr demoSync) # pre) @ ds @ post" by simp
  with run show ?thesis unfolding s(1) snd_conv by blast
qed

end
