(* ===== verification/ComponentProperties.thy ===== *)
theory ComponentProperties
  imports MemLaws
begin

text \<open>
  The properties of the components, each with a witness that applies it where its hypotheses hold.
\<close>

section \<open>Syncing a resource\<close>

text \<open>
  C7. Refinement: syncing one Secret or ConfigMap into one namespace is one of the runs of \<open>syncRun\<close>:
  the calls it makes, in order, on every branch, and the very error it returns, which for a failed call is
  that call's, wrapped where the code wraps it.
\<close>

theorem sync_refines_runs:
  assumes "getsAsked E"
  shows "case syncKind E k src tgt name peers explicit s of (r, s') \<Rightarrow>
    \<exists>cs. calls s' = calls s @ cs \<and> syncRun E k src tgt name peers explicit cs r"
  using syncKind_run [OF assms, of k src tgt name peers explicit s] by (auto split: prod.split)

abbreviation demoCopy :: "goerr option \<times> mem st" where
  "demoCopy \<equiv> syncKind memEnv KSecret ''alpha'' ''team'' ''s'' [] False (memStart demoMem)"

theorem sync_refines_runs_witness:
  "syncRun memEnv KSecret ''alpha'' ''team'' ''s'' [] False (calls (snd demoCopy)) (fst demoCopy)"
  using sync_refines_runs [OF memEnv_getsAsked, where k = KSecret and src = "''alpha''" and tgt = "''team''"
      and name = "''s''" and peers = "[]" and explicit = False and s = "memStart demoMem"]
  by (simp add: split_beta)

definition isConflict :: "goerr option \<Rightarrow> bool" where
  "isConflict r \<longleftrightarrow> (\<exists>e. r = Some e \<and> errorsIs e errSyncConflict)"

text \<open>
  C3. Syncs follow the README's policy on overlapping NamespaceSyncs, \<open>mayWrite\<close>. Once a sync has read the
  source, there are three outcomes. Without looking at the target, it returns a sync conflict: then nothing
  may be written there, whatever it holds. It finds nothing there: then the policy lets it write, and it
  creates the copy. It finds an object: if the policy lets it write that, it updates it to the copy unless
  it is up to date, and otherwise it writes nothing and returns a sync conflict. What it writes is of the
  kind and at the place it was asked for, and its result is that of the write.
\<close>

theorem sync_follows_policy:
  assumes "getsAsked E" and "semanticEquality E" and "src \<noteq> []"
    and "syncKind E k src tgt name peers explicit s = (r, s')"
    and "calls s' = calls s @ CGet k (src, name) (Inr x) # cs"
  shows "case cs of
      [] \<Rightarrow> isConflict r \<and> (\<forall>found. \<not> mayWrite (set peers) (typeName k) src explicit tgt name found)
    | c # ds \<Rightarrow> (\<exists>q. c = CGet k (tgt, name) q \<and>
        (case q of
           Inl e \<Rightarrow>
             if isNotFound E e
             then mayWrite (set peers) (typeName k) src explicit tgt name None \<and>
               (\<exists>z. ds = [CCreate z r] \<and> objKind z = k \<and> objKey z = (tgt, name) \<and> upToDate x z)
             else ds = [] \<and> r = Some e
         | Inr y \<Rightarrow>
             if \<not> mayWrite (set peers) (typeName k) src explicit tgt name (Some y) then ds = [] \<and> isConflict r
             else if upToDate x y then ds = [] \<and> r = None
             else \<exists>z u. ds = [CUpdate z u] \<and> objKind z = k \<and> objKey z = (tgt, name) \<and> upToDate x z \<and>
               r = updateError u))"
proof -
  have "syncRun E k src tgt name peers explicit (CGet k (src, name) (Inr x) # cs) r"
    using syncKind_run [OF assms(1,4)] assms(5) by auto
  then show ?thesis
  proof cases
    case (claimed e)
    then have "\<exists>p \<in> set peers. readsAsSource (typeName k) tgt name p"
      using sourceConflict_None [of peers "typeName k" tgt name] by auto
    with claimed sourceConflict_is [OF claimed(4)] show ?thesis
      by (simp add: isConflict_def mayWrite_def defaultMayWrite_def)
  next
    case (created e z)
    then show ?thesis by (auto simp: mayWrite_None sourceConflict_None)
  next
    case (refused y e)
    then have "\<not> mayWrite (set peers) (typeName k) src explicit tgt name (Some y)"
      using mayWrite_Some [OF assms(3)] guard_iff_policy [of peers "typeName k" src explicit y] by auto
    with refused copyConflictGuard_is show ?thesis by (auto simp: isConflict_def)
  next
    case (in_sync y z)
    then have "mayWrite (set peers) (typeName k) src explicit tgt name (Some y)"
      using mayWrite_Some [OF assms(3)] by (simp add: guard_iff_policy sourceConflict_None)
    with in_sync in_sync_iff [OF assms(2)] show ?thesis by auto
  next
    case (updated y z q)
    then have "mayWrite (set peers) (typeName k) src explicit tgt name (Some y)"
      using mayWrite_Some [OF assms(3)] by (simp add: guard_iff_policy sourceConflict_None)
    with updated in_sync_iff [OF assms(2)] sameFrame_place [of y z] show ?thesis by auto
  qed simp_all
qed

text \<open>
  C21. Refinement: \<open>syncResources\<close> works through every listed name its filters admit, Secrets first; a
  conflict is reported and the work goes on, the first other error ends it; the conflicts and the error
  it returns are those of the runs.
\<close>

theorem syncResources_refines_list:
  assumes "getsAsked E"
  shows "case syncResources E n tgt peers s of ((conflicts, e), s') \<Rightarrow>
    \<exists>cs. calls s' = calls s @ cs \<and> listRun (resourceRun E n tgt peers) (worklist n) cs conflicts e"
  using syncResources_run [OF assms, of n tgt peers s] by (auto split: prod.split)

theorem syncResources_refines_list_witness:
  "case syncResources memEnv demoSync ''team'' [] (memStart demoMem) of ((conflicts, e), s') \<Rightarrow>
    \<exists>cs. calls s' = cs \<and> listRun (resourceRun memEnv demoSync ''team'' []) [(KSecret, ''s'')] cs conflicts e"
proof -
  have "worklist demoSync = [(KSecret, ''s'')]" by (simp add: worklist_def demoSync_def specFilter_def)
  with syncResources_refines_list [OF memEnv_getsAsked, where n = demoSync and tgt = "''team''" and peers = "[]"
      and s = "memStart demoMem"] show ?thesis by (simp add: split_beta)
qed

text \<open>
  C10. Quiescence: when source and copy have been read and the conflict guard lets the copy through, the
  object found is left alone, without error, exactly if it already holds what a copy of the source
  should; otherwise it is updated, once, to an object that does and that keeps everything else of the
  object found, its resource version included.
\<close>

theorem sync_writes_iff_outdated:
  assumes "getsAsked E" and "semanticEquality E"
    and "syncKind E k src tgt name peers explicit s = (r, s')"
    and "calls s' = calls s @ CGet k (src, name) (Inr x) # CGet k (tgt, name) (Inr y) # cs"
    and "copyConflictGuard peers (typeName k) src explicit y = None"
  shows "if upToDate x y then cs = [] \<and> r = None
    else \<exists>z q. cs = [CUpdate z q] \<and> upToDate x z \<and> sameFrame y z \<and> (r = None \<longleftrightarrow> (\<exists>u. q = Inr u))"
proof -
  obtain ds where "calls s' = calls s @ ds" "syncRun E k src tgt name peers explicit ds r"
    using syncKind_run [OF assms(1,3)] by blast
  with assms(4) have "syncRun E k src tgt name peers explicit
      (CGet k (src, name) (Inr x) # CGet k (tgt, name) (Inr y) # cs) r" by simp
  from syncRun_writes_iff [OF assms(2) this assms(5)] show ?thesis by (auto simp: updateError_None)
qed

text \<open>An outdated copy in \<open>team\<close>: a copy of the source without its data.\<close>

definition oldCopy :: obj where
  "oldCopy = ObjSecret \<lparr>secMeta = sampleMeta ''team'' ''s'' (copyAnnotations ''alpha'' ''s''),
     secImmutable = None, secData = None, secStringData = None, secType = ''Opaque''\<rparr>"

definition oldMem :: mem where
  "oldMem = demoMem\<lparr>memObj := (memObj demoMem)(KSecret := (memObj demoMem KSecret)((''team'', ''s'') \<mapsto> oldCopy))\<rparr>"

abbreviation oldRun :: "goerr option \<times> mem st" where
  "oldRun \<equiv> syncKind memEnv KSecret ''alpha'' ''team'' ''s'' [] False (memStart oldMem)"

lemma oldRun_reads: "take 2 (calls (snd oldRun)) =
    [CGet KSecret (''alpha'', ''s'') (Inr (sampleSecret ''alpha'' ''s'' None)), CGet KSecret (''team'', ''s'') (Inr oldCopy)]"
  by (simp add: copy_defs oldMem_def oldCopy_def)

lemma take2: "take 2 xs = [a, b] \<Longrightarrow> xs = a # b # drop 2 xs"
  by (metis append_Cons append_Nil append_take_drop_id)

theorem sync_writes_iff_outdated_witness:
  "\<exists>z q. drop 2 (calls (snd oldRun)) = [CUpdate z q] \<and> upToDate (sampleSecret ''alpha'' ''s'' None) z \<and> sameFrame oldCopy z"
proof -
  let ?x = "sampleSecret ''alpha'' ''s'' None"
  obtain r s where run: "oldRun = (r, s)" by (metis surj_pair)
  have reads: "calls s = calls (memStart oldMem) @ CGet KSecret (''alpha'', ''s'') (Inr ?x) # CGet KSecret (''team'', ''s'') (Inr oldCopy)
      # drop 2 (calls s)"
    using take2 [OF oldRun_reads] unfolding run by simp
  have guard: "copyConflictGuard [] (typeName KSecret) ''alpha'' False oldCopy = None"
    by (simp add: oldCopy_def copyConflictGuard_def isManagedCopy_def getAnnotations_def getName_def Let_def)
  have "\<not> upToDate ?x oldCopy"
    by (simp add: upToDate_def payloadEntries_def oldCopy_def sampleSecret_def mapEntries_def)
  with sync_writes_iff_outdated [OF memEnv_getsAsked memEnv_semanticEquality run reads guard]
  show ?thesis unfolding run by auto
qed

lemma syncRun_written:
  assumes "syncRun E k src tgt name peers explicit cs r"
    and "CCreate z p \<in> set cs \<or> CUpdate z q \<in> set cs" and "CGet k (src, name) (Inr x) \<in> set cs" and "src \<noteq> tgt"
  shows "upToDate x z \<and> objKind x = k \<and> objKey x = (src, name)"
  using assms by cases (auto simp: isRead_def)

lemma upToDate_guard:
  assumes "upToDate x y" and "objKey x = (src, name)" and "getName y = name" and "src \<noteq> []"
  shows "copyConflictGuard peers ty src explicit y = None"
proof -
  have "isManagedCopy y src"
    using upToDate_managed [OF assms(1)] assms(2,3) by (simp add: objKey_def)
  then have "mapIndex (getAnnotations y) AnnotationSourceNamespace = src"
    by (simp add: isManagedCopy_def Let_def)
  with \<open>isManagedCopy y src\<close> assms(4) show ?thesis by (simp add: guard_iff_policy overwriteAllowed_def Let_def)
qed

text \<open>
  C12. Convergence: once a sync wrote a copy \<open>z\<close> of \<open>x\<close>, a later sync that reads the same source and an
  object with the contents of \<open>z\<close> writes nothing and returns no error, whatever the peers: the
  controller does not fight its own writes, nor a resource version or UID the server filled in.
\<close>

theorem sync_converges:
  assumes laws: "getsAsked E" "semanticEquality E" and places: "src \<noteq> []" "src \<noteq> tgt"
    and first: "syncKind E k src tgt name peers explicit s = (r, s')" "calls s' = calls s @ cs"
      "CGet k (src, name) (Inr x) \<in> set cs" "CCreate z p \<in> set cs \<or> CUpdate z q \<in> set cs"
    and second: "syncKind E k src tgt name peers' explicit' t = (r', t')"
      "calls t' = calls t @ CGet k (src, name) (Inr x) # CGet k (tgt, name) (Inr y) # ds"
    and same: "sameContents y z" "getName y = name"
  shows "ds = [] \<and> r' = None"
proof -
  obtain cs' where "calls s' = calls s @ cs'" "syncRun E k src tgt name peers explicit cs' r"
    using syncKind_run [OF laws(1) first(1)] by blast
  with first(2) have "syncRun E k src tgt name peers explicit cs r" by simp
  from syncRun_written [OF this first(4,3) places(2)] have x: "upToDate x y" "objKey x = (src, name)"
    using upToDate_contents [OF same(1)] by auto
  have "copyConflictGuard peers' (typeName k) src explicit' y = None"
    by (rule upToDate_guard [OF x same(2) places(1)])
  moreover obtain ds' where "calls t' = calls t @ ds'" "syncRun E k src tgt name peers' explicit' ds' r'"
    using syncKind_run [OF laws(1) second(1)] by blast
  with second(2) have "syncRun E k src tgt name peers' explicit'
      (CGet k (src, name) (Inr x) # CGet k (tgt, name) (Inr y) # ds) r'" by simp
  ultimately show ?thesis using syncRun_writes_iff [OF laws(2)] x(1) by fastforce
qed

lemma demoCopy_calls: "calls (snd demoCopy) =
    [CGet KSecret (''alpha'', ''s'') (Inr (sampleSecret ''alpha'' ''s'' None)),
     CGet KSecret (''team'', ''s'') (Inl memNotFound), CCreate madeCopy None]"
  by (simp add: copy_defs madeCopy_def)

theorem sync_follows_policy_witness:
  "mayWrite {} ''secret'' ''alpha'' False ''team'' ''s'' None \<and> upToDate (sampleSecret ''alpha'' ''s'' None) madeCopy"
proof -
  obtain r s where run: "demoCopy = (r, s)" by (metis surj_pair)
  have "calls s = calls (memStart demoMem) @ CGet KSecret (''alpha'', ''s'') (Inr (sampleSecret ''alpha'' ''s'' None)) #
      [CGet KSecret (''team'', ''s'') (Inl memNotFound), CCreate madeCopy None]"
    using demoCopy_calls unfolding run by simp
  from sync_follows_policy [OF memEnv_getsAsked memEnv_semanticEquality _ run this] show ?thesis by simp
qed

lemma demoCopy_stored:
  "memObj (world (snd demoCopy)) KSecret (''alpha'', ''s'') = Some (sampleSecret ''alpha'' ''s'' None)"
  "memObj (world (snd demoCopy)) KSecret (''team'', ''s'') = Some (stamped demoMem madeCopy)"
  by (simp_all add: copy_defs madeCopy_def)

lemma createOrUpdate_reads:
  "\<exists>ds. calls (snd (createOrUpdateResource E a ty guard upd s)) =
     calls s @ CGet (objKind a) (objKey a) (fst (doGet E (objKind a) (objKey a) s)) # ds"
proof -
  obtain q t where g: "doGet E (objKind a) (objKey a) s = (q, t)" by (metis surj_pair)
  moreover from this have "calls t = calls s @ [CGet (objKind a) (objKey a) q]"
    by (auto simp: doGet_def dest: perform_result)
  ultimately show ?thesis
    by (auto simp: createOrUpdateResource_def Let_def doCreate_def doUpdate_def perform_def
        split: sum.split option.split prod.split)
qed

lemma again_reads:
  assumes "memObj (world s) KSecret (''alpha'', ''s'') = Some (sampleSecret ''alpha'' ''s'' None)"
    and "memObj (world s) KSecret (''team'', ''s'') = Some (stamped w madeCopy)"
  shows "\<exists>ds. calls (snd (syncKind memEnv KSecret ''alpha'' ''team'' ''s'' [] False s)) = calls s @
    CGet KSecret (''alpha'', ''s'') (Inr (sampleSecret ''alpha'' ''s'' None)) #
    CGet KSecret (''team'', ''s'') (Inr (stamped w madeCopy)) # ds"
proof -
  have place: "metaName (objMeta (stamped w madeCopy)) = ''s''" "metaNamespace (objMeta (stamped w madeCopy)) = ''team''"
    "objKind (stamped w madeCopy) = KSecret"
    by (simp_all add: madeCopy_def stamped_def)
  obtain m where run: "syncKind memEnv KSecret ''alpha'' ''team'' ''s'' [] False s =
      createOrUpdateResource memEnv (ObjSecret (newSecret ''s'' ''team'' (asSecret (sampleSecret ''alpha'' ''s'' None))\<lparr>secMeta := m\<rparr>))
        ''secret'' (copyConflictGuard [] ''secret'' ''alpha'' False) updateSecret
        (s\<lparr>calls := calls s @ [CGet KSecret (''alpha'', ''s'') (Inr (sampleSecret ''alpha'' ''s'' None))]\<rparr>)"
    and m: "metaName m = ''s''" "metaNamespace m = ''team''"
    using assms(1) by (simp add: syncKind_def syncSecret_def doGet_def perform_def memGet_def sourceConflict_def
        copyLabelsAndAnnotations_def Let_def timeNow_def newSecret_def)
  show ?thesis
    unfolding run
    using createOrUpdate_reads [of memEnv "ObjSecret (newSecret ''s'' ''team'' (asSecret (sampleSecret ''alpha'' ''s'' None))\<lparr>secMeta := m\<rparr>)"
        "''secret''" "copyConflictGuard [] ''secret'' ''alpha'' False" updateSecret
        "s\<lparr>calls := calls s @ [CGet KSecret (''alpha'', ''s'') (Inr (sampleSecret ''alpha'' ''s'' None))]\<rparr>"]
      assms(2) m place
    by (simp add: doGet_def perform_def memGet_def objKey_def getName_def getNamespace_def stamped_same)
qed

theorem sync_converges_witness:
  "\<exists>s. s = snd (syncKind memEnv KSecret ''alpha'' ''team'' ''s'' [] False (memStart demoMem)) \<and>
     length (calls (snd (syncKind memEnv KSecret ''alpha'' ''team'' ''s'' [] False s))) = length (calls s) + 2"
proof -
  obtain r s where run: "demoCopy = (r, s)" by (metis surj_pair)
  obtain r' t where run': "syncKind memEnv KSecret ''alpha'' ''team'' ''s'' [] False s = (r', t)" by (metis surj_pair)
  obtain ds where reads: "calls t = calls s @ CGet KSecret (''alpha'', ''s'') (Inr (sampleSecret ''alpha'' ''s'' None)) #
      CGet KSecret (''team'', ''s'') (Inr (stamped demoMem madeCopy)) # ds"
    using again_reads [of s demoMem] demoCopy_stored run' unfolding run by auto
  have list: "calls s = [CGet KSecret (''alpha'', ''s'') (Inr (sampleSecret ''alpha'' ''s'' None)),
     CGet KSecret (''team'', ''s'') (Inl memNotFound), CCreate madeCopy None]"
    using demoCopy_calls unfolding run by simp
  have name: "getName madeCopy = ''s''" by (simp add: madeCopy_def getName_def)
  have "ds = [] \<and> r' = None"
    by (rule sync_converges [OF memEnv_getsAsked memEnv_semanticEquality _ _ run _ _ _ run' reads,
        where cs = "calls s" and z = madeCopy and p = None])
      (simp_all add: list stamped_same name)
  with reads run' show ?thesis unfolding run by simp
qed

section \<open>Deleting a NamespaceSync\<close>

text \<open>
  C14. A deletion leaves nothing behind: if handling a deleted NamespaceSync writes the NamespaceSync (to
  remove the finalizer), then for every place the cleanup is responsible for, in every namespace listed,
  the history shows that no copy is left: nothing was found there, or an object that is not its copy, or
  its copy, which the next call deleted or found gone.
\<close>

theorem finalizer_released_when_gone:
  assumes "handleDeletionAndStatus E n s = ((d, r), s')"
    and "calls s' = calls s @ cs" and "CUpdateSync m q \<in> set cs"
  shows "\<exists>nss items. CListNamespaces (Inr nss) \<in> set cs \<and> CListSyncs (Inr items) \<in> set cs \<and>
    (\<forall>k key. fst key \<in> set nss \<and> cleanupPlace n (livePeers E n items) k key \<longrightarrow>
       isGone E (SourceNamespace (Spec n)) k key cs)"
  using handleDeletion_complete [OF assms] by (simp only: cleanupComplete_def)

definition goneMem :: mem where
  "goneMem = demoMem\<lparr>memNamespaces := [''team''],
     memObj := (\<lambda>k key. if k = KSecret \<and> key = (''team'', ''s'') then Some oldCopy else None)\<rparr>"

abbreviation goneRun :: "(int \<times> goerr option) \<times> mem st" where
  "goneRun \<equiv> handleDeletionAndStatus memEnv demoSync (memStart goneMem)"

lemma goneRun_calls: "\<exists>m q. CUpdateSync m q \<in> set (calls (snd goneRun))"
  by (simp add: handleDeletionAndStatus_def cleanupSyncedResources_def deleteManagedCopy_def uncachedGet_def
      doDelete_def memDelete_def doUpdateSync_def goneMem_def oldCopy_def errorsJoin_def syncsName_def secretStub_def
      recordCleanupSuccess_def copy_defs)

theorem finalizer_released_when_gone_witness:
  "\<exists>nss items. CListNamespaces (Inr nss) \<in> set (calls (snd goneRun)) \<and> CListSyncs (Inr items) \<in> set (calls (snd goneRun)) \<and>
    (\<forall>k key. fst key \<in> set nss \<and> cleanupPlace demoSync (livePeers memEnv demoSync items) k key \<longrightarrow>
       isGone memEnv ''alpha'' k key (calls (snd goneRun)))"
proof -
  obtain d r s where run: "goneRun = ((d, r), s)" by (metis surj_pair)
  obtain m q where "CUpdateSync m q \<in> set (calls s)" using goneRun_calls unfolding run by auto
  moreover have "SourceNamespace (Spec demoSync) = ''alpha''" by (simp add: demoSync_def)
  ultimately show ?thesis
    using finalizer_released_when_gone [OF run, of "calls s" m q] unfolding run by simp
qed

section \<open>Validation and filters\<close>

text \<open>
  C23. Validation accepts exactly the valid specs: a source namespace, at least one Secret or ConfigMap,
  and only patterns \<open>path.Match\<close> can parse in the four lists of the filters.
\<close>

theorem validation_accepts_valid:
  "validateNamespaceSync E n = None \<longleftrightarrow>
     SourceNamespace (Spec n) \<noteq> [] \<and> (SecretName (Spec n) \<noteq> [] \<or> ConfigMapName (Spec n) \<noteq> []) \<and>
     (\<forall>p \<in> set (specPatterns n). parseGlob p \<noteq> None)"
  using validateNamespaceSync_None [of E n] by (simp add: validSpec_def validPattern_def)

text \<open>
  C24. A rejected pattern is named: when source and names are there, a rejected spec has a malformed
  pattern in the filter of the field the error names, and the error wraps \<open>path.ErrBadPattern\<close>.
\<close>

theorem validation_names_pattern:
  assumes "validateNamespaceSync E n = Some e" and "SourceNamespace (Spec n) \<noteq> []"
    and "SecretName (Spec n) \<noteq> [] \<or> ConfigMapName (Spec n) \<noteq> []"
  shows "\<exists>f field flt p. ResourceFilters (Spec n) = Some f \<and>
    (field, flt) \<in> {(''secrets'', filterSecrets f), (''configMaps'', filterConfigMaps f)} \<and>
    p \<in> set (filterPatterns flt) \<and> parseGlob p = None \<and> errorsIs e errBadPattern \<and>
    errorMsg e = ''invalid pattern '' @ goQuote (unicodePrint E) p @ '' in resourceFilters.'' @ field @ '': syntax error in pattern''"
proof -
  obtain f where f: "ResourceFilters (Spec n) = Some f"
    using assms by (auto simp: validateNamespaceSync_def split: if_splits option.splits)
  have "validateResourceFilter E ''secrets'' (filterSecrets f) = Some e \<or>
      validateResourceFilter E ''configMaps'' (filterConfigMaps f) = Some e"
    using assms f by (auto simp: validateNamespaceSync_def split: if_splits option.splits)
  then show ?thesis
    using f validateResourceFilter_Some by (fastforce simp: validPattern_def)
qed

definition badPatternSync :: namespaceSync where
  "badPatternSync = (sampleSync ''a'' ''alpha'' [] [''s''])\<lparr>Spec :=
     (Spec (sampleSync ''a'' ''alpha'' [] [''s'']))\<lparr>ResourceFilters :=
       Some \<lparr>filterSecrets = Some \<lparr>Include = [''['' ], filterExclude = []\<rparr>, filterConfigMaps = None\<rparr>\<rparr>\<rparr>"

lemma bracket_malformed: "parseGlob ''['' = None"
  by (simp add: classStart_def parseRanges.simps getRange_def getEsc_def)

lemma bracket_invalid: "\<not> validPattern ''[''"
  unfolding validPattern_def bracket_malformed by simp

theorem validation_names_pattern_witness:
  "\<exists>e. validateNamespaceSync memEnv badPatternSync = Some e \<and> errorsIs e errBadPattern"
proof -
  have "\<not> validSpec badPatternSync"
    by (simp add: validSpec_def badPatternSync_def specPatterns_def filterPatterns_def bracket_invalid)
  then obtain e where e: "validateNamespaceSync memEnv badPatternSync = Some e"
    using validateNamespaceSync_None [of memEnv badPatternSync] by auto
  have "SourceNamespace (Spec badPatternSync) \<noteq> []" "SecretName (Spec badPatternSync) \<noteq> []"
    by (simp_all add: badPatternSync_def)
  with validation_names_pattern [OF e] e show ?thesis by blast
qed

text \<open>
  C25. A filter of a valid spec means what it says: a name of ASCII characters without slashes is synced
  exactly if it matches no exclude pattern and, when there are include patterns, matches one of them;
  matching is the declarative \<open>gmatch\<close> of the parsed pattern.
\<close>

theorem valid_filter_decides:
  assumes "validateNamespaceSync E n = None" and "ResourceFilters (Spec n) = Some f"
    and "filterSecrets f = Some g \<or> filterConfigMaps f = Some g" and "plainName name"
  shows "shouldSyncResource name (Some g) \<longleftrightarrow>
    (\<forall>p \<in> set (filterExclude g). \<not> globs p name) \<and> (Include g = [] \<or> (\<exists>p \<in> set (Include g). globs p name))"
  using valid_filters [of n f g name] assms validateNamespaceSync_None [of E n] by simp

definition filteredSync :: namespaceSync where
  "filteredSync = (sampleSync ''a'' ''alpha'' [] [''s''])\<lparr>Spec :=
     (Spec (sampleSync ''a'' ''alpha'' [] [''s'']))\<lparr>ResourceFilters :=
       Some \<lparr>filterSecrets = Some \<lparr>Include = [''a*''], filterExclude = [''ab'']\<rparr>, filterConfigMaps = None\<rparr>\<rparr>\<rparr>"

theorem validation_accepts_valid_witness:
  "validateNamespaceSync memEnv filteredSync = None"
  unfolding validation_accepts_valid
  by (simp add: filteredSync_def specPatterns_def filterPatterns_def)

theorem valid_filter_decides_witness:
  "shouldSyncResource ''ac'' (Some \<lparr>Include = [''a*''], filterExclude = [''ab'']\<rparr>) \<longleftrightarrow>
     \<not> globs ''ab'' ''ac'' \<and> globs ''a*'' ''ac''"
proof -
  have "validateNamespaceSync memEnv filteredSync = None"
    by (simp add: validateNamespaceSync_None validSpec_def filteredSync_def specPatterns_def filterPatterns_def validPattern_def)
  from valid_filter_decides [OF this, of _ "\<lparr>Include = [''a*''], filterExclude = [''ab'']\<rparr>" "''ac''"] show ?thesis
    by (simp add: filteredSync_def plainName_def asciiByte_def byteVal_def)
qed

text \<open>
  C26. A malformed pattern fails closed, whatever the name: one among the exclude patterns excludes every
  name, and include patterns none of which can be parsed admit none.
\<close>

theorem malformed_pattern_fails_closed:
  assumes "(\<exists>p \<in> set (filterExclude f). parseGlob p = None) \<or>
    (Include f \<noteq> [] \<and> (\<forall>p \<in> set (Include f). parseGlob p = None))"
  shows "\<not> shouldSyncResource name (Some f)"
proof -
  have "pathMatch p name = Inl errBadPattern" if "parseGlob p = None" for p
    using that by (simp add: pathMatch_error)
  with assms show ?thesis
    by (auto simp: shouldSyncResource_def pm.excludeLoop_iff pm.includeLoop_iff validPattern_def)
qed

theorem malformed_pattern_fails_closed_witness:
  "\<not> shouldSyncResource ''s'' (Some \<lparr>Include = [], filterExclude = [''['']\<rparr>)"
  by (rule malformed_pattern_fails_closed, rule disjI1, rule bexI [where x = "''[''"], rule bracket_malformed) simp

section \<open>Status\<close>

text \<open>
  C27. The Ready condition says what happened: it is True with reason SyncComplete when nothing failed,
  SyncConflict when only conflicts were skipped, PartialSync when a namespace failed otherwise but one
  was synced, and False with SyncFailed when one failed otherwise and none was synced.
\<close>

theorem ready_condition_table:
  assumes "tallies failed conflicted"
  shows "(condStatus (readyCondition gen now synced failed conflicted),
     condReason (readyCondition gen now synced failed conflicted)) =
     (if fmdom' failed = {} then (conditionTrue, ''SyncComplete'')
      else if fmdom' failed = set conflicted then (conditionTrue, ''SyncConflict'')
      else if synced \<noteq> [] then (conditionTrue, ''PartialSync'')
      else (conditionFalse, ''SyncFailed''))"
  using readyCondition_outcome [OF assms, of gen now synced] mapLen_0 [of failed]
  by (auto simp: readyOutcome_def mapLen_card)

theorem ready_condition_table_witness:
  "condReason (readyCondition 1 sampleTime [''b''] (fmupd ''a'' ''boom'' fmempty) []) = ''PartialSync''"
  using ready_condition_table [of "fmupd ''a'' ''boom'' fmempty" "[]" 1 sampleTime "[''b'']"]
  by (simp add: tallies_def)

text \<open>
  C28. The message of the Ready condition, in each of its forms, states the right numbers: of the namespaces
  synced, of those that failed for another reason than a conflict, and of those with conflicts. It claims a
  success only when no namespace failed, or there was none to sync to.
\<close>

theorem ready_condition_counts:
  assumes "tallies failed conflicted"
  shows "condMessage (readyCondition gen now synced failed conflicted) =
    (let ok = digits (length synced); hard = digits (card (fmdom' failed - set conflicted));
         soft = digits (card (set conflicted)) in
     if fmdom' failed = {} then
       (if synced = [] then ''No target namespaces to sync'' else ''Successfully synced to '' @ ok @ '' namespaces'')
     else if fmdom' failed = set conflicted then
       ''Synced to '' @ ok @ '' namespaces, and to '' @ soft @ '' more except for conflicting objects''
     else
       (if synced \<noteq> [] then ''Synced to '' @ ok @ '' namespaces, failed to sync to '' else ''Failed to sync to '') @
       hard @ '' namespaces'' @ (if conflicted \<noteq> [] then '', skipped conflicting objects in '' @ soft else []))"
proof -
  have "card (set conflicted) = length conflicted" using assms(1) by (simp add: tallies_def distinct_card)
  moreover have "fmdom' failed = {} \<longleftrightarrow> failed = fmempty" using mapLen_0 [of failed] by (auto simp: mapLen_card)
  moreover have "mapLen failed > 0 \<longleftrightarrow> failed \<noteq> fmempty" using mapLen_0 [of failed] by linarith
  moreover have "showInt 0 = digits 0" using showInt_of_nat [of 0] by simp
  ultimately show ?thesis
    using tallies_all [OF assms(1)] tallies_failures [OF assms(1)]
    by (cases "synced = []"; cases "failed = fmempty") (auto simp: readyCondition_def Let_def showInt_of_nat)
qed

theorem ready_condition_counts_witness:
  "condMessage (readyCondition 1 sampleTime [] (fmupd ''a'' ''boom'' (fmupd ''b'' ''conflict'' fmempty)) [''b'']) =
     ''Failed to sync to 1 namespaces, skipped conflicting objects in 1''"
proof -
  have "{''a'', ''b''} - {''b''} = {''a'' :: string}" by auto
  moreover have "digits 1 = ''1''" by code_simp
  ultimately show ?thesis
    using ready_condition_counts [of "fmupd ''a'' ''boom'' (fmupd ''b'' ''conflict'' fmempty)" "[''b'']" 1 sampleTime "[]"]
    by (simp add: tallies_def)
qed

text \<open>
  C29. A status write is read-modify-write: \<open>updateStatus\<close> makes one or more attempts, each reading the
  latest version and writing that version with only its status changed, to the results, the generation
  and the Ready condition of this sync; its result is the last attempt's. Nothing is called when the
  NamespaceSync was being deleted.
\<close>

theorem status_write_attempts:
  assumes "retriesRuns E" and "tallies failed conflicted"
  shows "case updateStatus E n synced failed conflicted s of (r, s') \<Rightarrow>
    \<exists>cs. calls s' = calls s @ cs \<and>
      (if deletionTimestamp (nsMeta n) = None
       then retried (statusRun (syncKey n) (reports E synced failed conflicted)) cs r
       else cs = [] \<and> r = None)"
proof -
  obtain r s' where run: "updateStatus E n synced failed conflicted s = (r, s')" by (metis surj_pair)
  show ?thesis unfolding run prod.case using updateStatus_step [OF assms run] by (simp only: statusStep_def)
qed

lemma memEnv_retriesRuns: "retriesRuns memEnv"
  using memEnv_clientLaws by (simp add: clientLaws_def)

theorem status_write_attempts_witness:
  "retried (statusRun (''ops'', ''a'') (reports memEnv [''team''] fmempty []))
     (calls (snd (updateStatus memEnv demoSync [''team''] fmempty [] (memStart demoMem))))
     (fst (updateStatus memEnv demoSync [''team''] fmempty [] (memStart demoMem)))"
proof -
  have "deletionTimestamp (nsMeta demoSync) = None" "syncKey demoSync = (''ops'', ''a'')"
    by (simp_all add: demoSync_def syncKey_def)
  with status_write_attempts [OF memEnv_retriesRuns, where failed = fmempty and conflicted = "[]" and n = demoSync
      and synced = "[''team'']" and s = "memStart demoMem"]
  show ?thesis by (simp add: tallies_def split_beta)
qed

section \<open>Watches\<close>

text \<open>
  C32. A namespace event enqueues, in the order of the list, every NamespaceSync whose source it is or
  that targets it, each once; when the list fails, none.
\<close>

theorem namespace_event_requests:
  "findNamespaceSyncs E ns s =
     (case doListSyncs E s of
        (Inl e, t) \<Rightarrow> ([], t)
      | (Inr items, t) \<Rightarrow> (map syncKey (filter (\<lambda>n. SourceNamespace (Spec n) = ns \<or> targetsNamespace ns n) items), t))"
  by (simp add: findNamespaceSyncs_def namespaceRequests_eq touchesNamespace_def [abs_def] split: prod.split sum.split)

text \<open>
  C20. Watch completeness: whatever Secret or ConfigMap a reconcile of a live NamespaceSync reads, an event
  on it enqueues that NamespaceSync, as long as it is listed; so no change it depends on is missed.
\<close>

theorem watches_cover_reads:
  assumes "clientLaws E" and "Reconcile E interval key s = ((d, r), s')"
    and "calls s' = calls s @ CGetSync key (Inr n) # cs" and "timeIsZero E (deletionTimestamp (nsMeta n))"
    and "CGet k place q \<in> set cs \<or> CRead k place q \<in> set cs" and "n \<in> set items"
  shows "syncKey n \<in> set (resourceRequests (fst place) (snd place) (specNames k) items)"
proof -
  have "reconcileRun E interval key (CGetSync key (Inr n) # cs) d r"
    using Reconcile_run [OF assms(1,2)] assms(3) by auto
  from reconcileRun_reads [OF this assms(4)] assms(5) have "touchesObject k place n"
    by (cases place) (auto simp: list_all_iff readsTouched_def)
  with assms(6) show ?thesis by (simp add: resourceRequests_kind)
qed

lemma demoRun_source: "CGet KSecret (''alpha'', ''s'') (Inr (sampleSecret ''alpha'' ''s'' None)) \<in> set (tl (calls (snd demoRun)))"
  by (simp add: demo_defs)

theorem watches_cover_reads_witness:
  "syncKey demoSync \<in> set (resourceRequests ''alpha'' ''s'' (specNames KSecret) [demoSync])"
proof -
  obtain s where s: "demoRun = ((ReconcileInterval, None), s)" "s = snd demoRun" by (rule demoRun_split)
  have reads: "calls s = calls (memStart demoMem) @ CGetSync (''ops'', ''a'') (Inr demoSync) # tl (calls s)"
    using demoRun_reads unfolding s(1) by simp
  have live: "timeIsZero memEnv (deletionTimestamp (nsMeta demoSync))" by (simp add: demoSync_def)
  from watches_cover_reads [OF memEnv_clientLaws s(1) reads live, of KSecret "(''alpha'', ''s'')" _ "[demoSync]"]
    demoRun_source show ?thesis unfolding s(1) by auto
qed

text \<open>
  C33. The handlers for Secrets and ConfigMaps enqueue exactly the NamespaceSyncs that list the object's
  name and read from or sync to its namespace, in the order of the list.
\<close>

theorem object_event_requests:
  "findNamespaceSyncsForSecret E x s =
     (case doListSyncs E s of
        (Inl e, t) \<Rightarrow> ([], t)
      | (Inr items, t) \<Rightarrow> (map syncKey (filter (touchesObject KSecret (objKey (ObjSecret x))) items), t)) \<and>
   findNamespaceSyncsForConfigMap E c s =
     (case doListSyncs E s of
        (Inl e, t) \<Rightarrow> ([], t)
      | (Inr items, t) \<Rightarrow> (map syncKey (filter (touchesObject KConfigMap (objKey (ObjConfigMap c))) items), t))"
  by (simp add: findNamespaceSyncsForSecret_def findNamespaceSyncsForConfigMap_def findNamespaceSyncsForResource_def
      resourceRequests_eq touchesObject_def [abs_def] objKey_def getName_def getNamespace_def
      split: prod.split sum.split)

text \<open>
  C34. The controller does not wake itself, and sleeps through nothing else. Whatever write of the
  NamespaceSync a reconcile makes (a status, on every path, the finalizer added or removed), if the server
  applied it to a version the reconcile has read, the update event between that version and the one stored
  does not pass the controller's predicate. What does pass it: every change of the generation or of the
  annotations, and every creation, deletion and generic event.
\<close>

theorem own_writes_ignored:
  assumes "clientLaws E" and "finalizerLaws E" and "changePredicates generationChanged annotationChanged"
  shows "(case Reconcile E interval key s of (_, s') \<Rightarrow>
      \<forall>pre c post old new. calls s' = calls s @ pre @ c # post \<and> storedBy c old new \<and> versionsIdentify pre old \<longrightarrow>
        \<not> namespaceSyncPredicate generationChanged annotationChanged (UpdateEvent old new)) \<and>
    (\<forall>ev. namespaceSyncPredicate generationChanged annotationChanged ev \<longleftrightarrow> noteworthy ev)"
proof -
  obtain d r s' where run: "Reconcile E interval key s = ((d, r), s')" by (metis surj_pair)
  obtain cs where cs: "calls s' = calls s @ cs" "basedOn {} cs"
    using Reconcile_run [OF assms(1) run] reconcileRun_basedOn [OF _ assms(2)] by blast
  have "\<not> noteworthy (UpdateEvent old new)"
    if "calls s' = calls s @ pre @ c # post" "storedBy c old new" "versionsIdentify pre old" for pre c post old new
    using own_write_unnoticed [of "{}" pre c post] that cs by simp
  then show ?thesis unfolding run by (simp add: predicate_noteworthy [OF assms(3)])
qed

text \<open>The predicates of controller-runtime, and the status write of a run on the small cluster.\<close>

definition genPredicate :: "namespaceSync watchEvent \<Rightarrow> bool" where
  "genPredicate ev = (case ev of UpdateEvent a b \<Rightarrow> generation (nsMeta a) \<noteq> generation (nsMeta b) | _ \<Rightarrow> True)"

definition annPredicate :: "namespaceSync watchEvent \<Rightarrow> bool" where
  "annPredicate ev = (case ev of
     UpdateEvent a b \<Rightarrow> mapEntries (annotations (nsMeta a)) \<noteq> mapEntries (annotations (nsMeta b)) | _ \<Rightarrow> True)"

lemma memEnv_finalizerLaws: "finalizerLaws memEnv"
  by (simp add: finalizerLaws_def keepsTrigger_def)

lemma demoRun_statusWrite:
  "\<exists>m. calls (snd demoRun) = [] @ take 7 (calls (snd demoRun)) @ CUpdateStatus m None # [] \<and>
     storedBy (CUpdateStatus m None) demoSync m \<and> versionsIdentify (take 7 (calls (snd demoRun))) demoSync"
  by (simp add: demo_defs copy_defs versionsIdentify_def)

theorem own_writes_ignored_witness:
  "\<exists>m. last (calls (snd demoRun)) = CUpdateStatus m None \<and>
     \<not> namespaceSyncPredicate genPredicate annPredicate (UpdateEvent demoSync m)"
proof -
  obtain s where s: "demoRun = ((ReconcileInterval, None), s)" by (rule demoRun_split)
  obtain m where m: "calls s = calls (memStart demoMem) @ take 7 (calls s) @ CUpdateStatus m None # []"
    "storedBy (CUpdateStatus m None) demoSync m" "versionsIdentify (take 7 (calls s)) demoSync"
    using demoRun_statusWrite unfolding s by auto
  have laws: "changePredicates genPredicate annPredicate"
    by (simp add: changePredicates_def genPredicate_def annPredicate_def)
  from own_writes_ignored [OF memEnv_clientLaws memEnv_finalizerLaws laws, where interval = ReconcileInterval and
      key = "(''ops'', ''a'')" and s = "memStart demoMem"] m
  have "\<not> namespaceSyncPredicate genPredicate annPredicate (UpdateEvent demoSync m)"
    unfolding s prod.case by blast
  moreover have "last (calls s) = CUpdateStatus m None" using m(1) by (metis append_is_Nil_conv last.simps last_appendR list.distinct(1))
  ultimately show ?thesis unfolding s by auto
qed

end
