(* ===== verification/Registers.thy ===== *)
theory Registers
  imports Safety
begin

text \<open>
  From calls to contents. While nobody else writes an object, the API server behaves towards the
  history of a reconcile as a register does: an uncached read returns what is stored, a successful write
  stores what admission makes of what it was given. A cached read may be out of date; where it matters
  that it is not, that is a condition of its own. Under these conditions the runs of \<open>reconcileRun\<close> are
  shown to leave every synced place settled, and a settled place as it is.
\<close>

section \<open>The register of an object\<close>

definition placeOf :: "obj \<Rightarrow> kind \<times> key" where
  "placeOf x = (objKind x, objKey x)"

definition readOK :: "'w env \<Rightarrow> obj option \<Rightarrow> goerr + obj \<Rightarrow> bool" where
  "readOK E a r \<longleftrightarrow> (case r of Inr x \<Rightarrow> a = Some x | Inl e \<Rightarrow> isNotFound E e \<longrightarrow> a = None)"

text \<open>
  The server keeps labels, annotations and data of what admission, \<open>A\<close>, makes of the object sent, and
  chooses the rest of the metadata. A failed write may have been applied. A deleted object may stay for its
  finalizers, marked as being deleted.
\<close>

definition stored :: "(obj \<Rightarrow> obj) \<Rightarrow> obj \<Rightarrow> obj option \<Rightarrow> bool" where
  "stored A z b \<longleftrightarrow> (\<exists>u. b = Some u \<and> placeOf u = placeOf z \<and> sameContents (A z) u)"

definition dying :: "obj option \<Rightarrow> bool" where
  "dying b \<longleftrightarrow> (\<forall>u. b = Some u \<longrightarrow> deletionTimestamp (objMeta u) \<noteq> None)"

fun serverStep :: "'w env \<Rightarrow> (obj \<Rightarrow> obj) \<Rightarrow> kind \<times> key \<Rightarrow> obj option \<Rightarrow> call \<Rightarrow> obj option \<Rightarrow> bool" where
  "serverStep E A pl a (CRead k key r) b = (b = a \<and> ((k, key) = pl \<longrightarrow> readOK E a r))"
| "serverStep E A pl a (CCreate z q) b =
     (if placeOf z = pl then stored A z b \<or> (q \<noteq> None \<and> b = a) else b = a)"
| "serverStep E A pl a (CUpdate z r) b =
     (if placeOf z = pl then stored A z b \<or> ((\<exists>e. r = Inl e) \<and> b = a) else b = a)"
| "serverStep E A pl a (CDelete x uid rv q) b =
     (if placeOf x = pl
      then (case q of None \<Rightarrow> dying b
            | Some e \<Rightarrow> if isNotFound E e then a = None \<and> b = None else b = a \<or> dying b)
      else b = a)"
| "serverStep E A pl a c b = (b = a)"

text \<open>A read through the client comes from its cache; it is fresh if it returns what is stored.\<close>

fun freshRead :: "'w env \<Rightarrow> kind \<times> key \<Rightarrow> obj option \<Rightarrow> call \<Rightarrow> bool" where
  "freshRead E pl a (CGet k key r) = ((k, key) = pl \<longrightarrow> readOK E a r)"
| "freshRead E pl a c = True"

definition objectStep :: "'w env \<Rightarrow> (obj \<Rightarrow> obj) \<Rightarrow> kind \<times> key \<Rightarrow> obj option \<Rightarrow> call \<Rightarrow> obj option \<Rightarrow> bool" where
  "objectStep E A pl a c b \<longleftrightarrow> serverStep E A pl a c b \<and> freshRead E pl a c"

text \<open>
  Admission as the README supposes it: it adds labels and annotations, the same to the same object every
  time, and leaves alone the data and the annotations the controller tracks its copies by.
\<close>

definition quietAdmission :: "(obj \<Rightarrow> obj) \<Rightarrow> bool" where
  "quietAdmission A \<longleftrightarrow>
     (\<forall>z. payloadEntries (payload (A z)) = payloadEntries (payload z) \<and>
       (\<forall>key \<in> stampKeys. mapLookup (getAnnotations (A z)) key = mapLookup (getAnnotations z) key)) \<and>
     (\<forall>z z'. placeOf z = placeOf z' \<longrightarrow> sameContents z z' \<longrightarrow> sameContents (A z) (A z'))"

fun objectTrace :: "'w env \<Rightarrow> (obj \<Rightarrow> obj) \<Rightarrow> kind \<times> key \<Rightarrow> obj option \<Rightarrow> call list \<Rightarrow> obj option \<Rightarrow> bool" where
  "objectTrace E A pl a [] b = (b = a)"
| "objectTrace E A pl a (c # cs) b = (\<exists>m. objectStep E A pl a c m \<and> objectTrace E A pl m cs b)"

lemma objectStep_simps [simp]:
  "objectStep E A pl a (CGet k key r) b \<longleftrightarrow> b = a \<and> ((k, key) = pl \<longrightarrow> readOK E a r)"
  "objectStep E A pl a (CRead k key r) b \<longleftrightarrow> b = a \<and> ((k, key) = pl \<longrightarrow> readOK E a r)"
  "objectStep E A pl a (CCreate z q) b \<longleftrightarrow> serverStep E A pl a (CCreate z q) b"
  "objectStep E A pl a (CUpdate z p) b \<longleftrightarrow> serverStep E A pl a (CUpdate z p) b"
  "objectStep E A pl a (CDelete z u v q) b \<longleftrightarrow> serverStep E A pl a (CDelete z u v q) b"
  "objectStep E A pl a (CListNamespaces l) b \<longleftrightarrow> b = a" "objectStep E A pl a (CListSyncs l') b \<longleftrightarrow> b = a"
  "objectStep E A pl a (CGetSync key' g) b \<longleftrightarrow> b = a" "objectStep E A pl a (CUpdateSync n q) b \<longleftrightarrow> b = a"
  "objectStep E A pl a (CUpdateStatus n q) b \<longleftrightarrow> b = a"
  by (auto simp: objectStep_def)

lemma objectTrace_append:
  "objectTrace E A pl a (cs @ ds) b \<longleftrightarrow> (\<exists>m. objectTrace E A pl a cs m \<and> objectTrace E A pl m ds b)"
  by (induction cs arbitrary: a) auto

definition writesAt :: "kind \<times> key \<Rightarrow> call \<Rightarrow> bool" where
  "writesAt pl c \<longleftrightarrow> (\<exists>z. writeTarget c = Some z \<and> placeOf z = pl)"

lemma writesAt_simps [simp]:
  "writesAt pl (CCreate z q) \<longleftrightarrow> placeOf z = pl" "writesAt pl (CUpdate z r) \<longleftrightarrow> placeOf z = pl"
  "writesAt pl (CDelete z u v q) \<longleftrightarrow> placeOf z = pl"
  by (simp_all add: writesAt_def)

lemma writesAt_isWrite: "writesAt pl c \<Longrightarrow> isWrite c"
  by (auto simp: writesAt_def isWrite_def)

lemma objectStep_unwritten: "\<not> writesAt pl c \<Longrightarrow> objectStep E A pl a c b \<Longrightarrow> b = a"
  by (cases c) (auto simp: writesAt_def)

lemma objectTrace_unwritten:
  "list_all (\<lambda>c. \<not> writesAt pl c) cs \<Longrightarrow> objectTrace E A pl a cs b \<Longrightarrow> b = a"
  by (induction cs arbitrary: a) (auto dest: objectStep_unwritten)

lemma quiet_unwritten: "list_all (\<lambda>c. \<not> isWrite c) cs \<Longrightarrow> list_all (\<lambda>c. \<not> writesAt pl c) cs"
  by (auto simp: list_all_iff dest: writesAt_isWrite)

section \<open>Settled places\<close>

text \<open>
  The copy of \<open>x\<close> as it may be stored: up to date, or what admission made of an up-to-date copy.
\<close>

definition copyAs :: "(obj \<Rightarrow> obj) \<Rightarrow> obj \<Rightarrow> obj \<Rightarrow> bool" where
  "copyAs A x y \<longleftrightarrow> upToDate x y \<or> (\<exists>z. upToDate x z \<and> placeOf z = placeOf y \<and> sameContents (A z) y)"

lemma copyAs_unchanged: "copyAs (\<lambda>z. z) x y \<longleftrightarrow> upToDate x y"
  using upToDate_contents by (auto simp: copyAs_def)

text \<open>
  What a sync without error leaves of the source \<open>a\<close> and the object \<open>d\<close> at the target: the copy as
  stored, each at its place; or, of a source that is gone, no copy, unless the object is being deleted, or
  it is the source of a peer in \<open>P\<close> and the namespace is reached by default.
\<close>

definition settled ::
    "(obj \<Rightarrow> obj) \<Rightarrow> namespaceSync \<Rightarrow> namespaceSync set \<Rightarrow> kind \<Rightarrow> string \<Rightarrow> string \<Rightarrow> obj option \<Rightarrow> obj option \<Rightarrow> bool" where
  "settled A n P k ns name a d \<longleftrightarrow>
     (case a of
        Some x \<Rightarrow> placeOf x = (k, SourceNamespace (Spec n), name) \<and>
          (\<exists>y. d = Some y \<and> placeOf y = (k, ns, name) \<and> copyAs A x y)
      | None \<Rightarrow> dying d \<or> (\<forall>y. d = Some y \<longrightarrow> \<not> isManagedCopy y (SourceNamespace (Spec n))) \<or>
          (\<not> listsExplicitly ns n \<and> (\<exists>p \<in> P. readsAsSource (typeName k) ns name p)))"

lemma stored_copyAs: "stored A z b \<Longrightarrow> upToDate x z \<Longrightarrow> \<exists>y. b = Some y \<and> placeOf y = placeOf z \<and> copyAs A x y"
  by (auto simp: stored_def copyAs_def)

lemma syncRun_writesAt:
  assumes "syncRun E k src tgt name peers explicit cs r"
  shows "list_all (\<lambda>c. isWrite c \<longrightarrow> writesAt (k, tgt, name) c) cs"
  using assms
proof cases
  case (updated x y z q)
  then show ?thesis using sameFrame_place [of y z] by (simp add: placeOf_def)
qed (auto simp: placeOf_def isRead_def)

lemma syncRun_settles:
  assumes sem: "semanticEquality E"
    and run: "syncRun E k (SourceNamespace (Spec n)) tgt name peers (listsExplicitly tgt n) cs None"
    and other: "tgt \<noteq> SourceNamespace (Spec n)"
    and src: "objectTrace E A (k, SourceNamespace (Spec n), name) a cs b"
    and tgt: "objectTrace E A (k, tgt, name) c cs d"
  shows "settled A n (set peers) k tgt name b d"
  using run
proof cases
  case (stale_foreign e)
  then show ?thesis using src by (auto simp: settled_def readOK_def)
next
  case (stale_kept e q rd)
  then have "b = None" using src by (auto simp: isRead_def readOK_def)
  moreover have "\<exists>e. q = Inl e \<and> isNotFound E e \<or> (\<exists>y. q = Inr y \<and> \<not> isManagedCopy y (SourceNamespace (Spec n)))"
    using stale_kept by (cases q) (auto simp: isRead_def readError_def split: if_splits)
  ultimately show ?thesis using tgt stale_kept by (auto simp: settled_def isRead_def readOK_def)
next
  case (stale_deleted e y rd dl q)
  then have "b = None" using src other by (auto simp: isRead_def readOK_def placeOf_def)
  moreover have "dying d"
    using tgt stale_deleted by (cases q) (auto simp: isRead_def readOK_def placeOf_def deleteError_def split: if_splits)
  ultimately show ?thesis by (simp add: settled_def)
next
  case (created x e z)
  then have "b = Some x" "stored A z d" using src tgt other by (auto simp: readOK_def placeOf_def)
  with created stored_copyAs [of A z d x] show ?thesis by (auto simp: settled_def placeOf_def copyAs_def)
next
  case (in_sync x y z)
  then have "b = Some x" "d = Some y" using src tgt by (auto simp: readOK_def)
  with in_sync in_sync_iff [OF sem] show ?thesis by (auto simp: settled_def placeOf_def copyAs_def)
next
  case (updated x y z q)
  then have "b = Some x" "stored A z d"
    using src tgt other sameFrame_place [of y z] by (auto simp: readOK_def placeOf_def updateError_def split: sum.splits)
  with updated stored_copyAs [of A z d x] sameFrame_place [of y z] show ?thesis by (auto simp: settled_def placeOf_def copyAs_def)
qed

section \<open>Lists and sweeps\<close>

text \<open>Calls that write nothing but the objects of a set compose.\<close>

definition writesOnly :: "(kind \<times> key) set \<Rightarrow> call list \<Rightarrow> bool" where
  "writesOnly A = list_all (\<lambda>c. isWrite c \<longrightarrow> (\<exists>pl \<in> A. writesAt pl c))"

lemma writesOnly_unwritten: "writesOnly A cs \<Longrightarrow> pl \<notin> A \<Longrightarrow> list_all (\<lambda>c. \<not> writesAt pl c) cs"
  unfolding writesOnly_def by (auto simp: list_all_iff writesAt_def isWrite_def)

lemma writesOnly_mono: "writesOnly A cs \<Longrightarrow> A \<subseteq> B \<Longrightarrow> writesOnly B cs"
  unfolding writesOnly_def by (auto simp: list_all_iff)

interpretation wo: call_protocol "writesOnly A"
  by unfold_locales (auto simp: writesOnly_def)

lemma resourceRun_writesOnly: "resourceRun E n ns peers item cs r \<Longrightarrow> writesOnly {(fst item, ns, snd item)} cs"
  unfolding resourceRun_def by (drule syncRun_writesAt) (simp add: writesOnly_def)

lemma targets_not_source: "targetsNamespace ns n \<Longrightarrow> ns \<noteq> SourceNamespace (Spec n)"
  by (simp add: targetsNamespace_iff)

text \<open>The registers of a source and of the object a copy of it is kept in.\<close>

definition copyTrace ::
    "'w env \<Rightarrow> (obj \<Rightarrow> obj) \<Rightarrow> namespaceSync \<Rightarrow> kind \<Rightarrow> string \<Rightarrow> string \<Rightarrow> obj option \<times> obj option \<Rightarrow> call list \<Rightarrow> obj option \<times> obj option \<Rightarrow> bool" where
  "copyTrace E A n k ns name s cs t \<longleftrightarrow>
     objectTrace E A (k, SourceNamespace (Spec n), name) (fst s) cs (fst t) \<and>
     objectTrace E A (k, ns, name) (snd s) cs (snd t)"

lemma copyTrace_append:
  "copyTrace E A n k ns name s (cs @ ds) t \<longleftrightarrow> (\<exists>m. copyTrace E A n k ns name s cs m \<and> copyTrace E A n k ns name m ds t)"
  by (auto simp: copyTrace_def objectTrace_append)

lemma copyTrace_unwritten:
  assumes "writesOnly W cs" and "(k, SourceNamespace (Spec n), name) \<notin> W" and "(k, ns, name) \<notin> W"
    and "copyTrace E A n k ns name s cs t"
  shows "t = s"
  using assms writesOnly_unwritten objectTrace_unwritten unfolding copyTrace_def by (metis prod.collapse)

abbreviation settledAt :: "(obj \<Rightarrow> obj) \<Rightarrow> namespaceSync \<Rightarrow> namespaceSync set \<Rightarrow> kind \<Rightarrow> string \<Rightarrow> string \<Rightarrow> obj option \<times> obj option \<Rightarrow> bool" where
  "settledAt A n P k ns name s \<equiv> settled A n P k ns name (fst s) (snd s)"

lemma resourceRun_settles:
  assumes "semanticEquality E" and "targetsNamespace ns n" and "resourceRun E n ns peers item cs None"
    and "copyTrace E A n k ns name s cs t" and "item = (k, name) \<or> settledAt A n (set peers) k ns name s"
  shows "settledAt A n (set peers) k ns name t"
proof (cases "item = (k, name)")
  case True
  with assms show ?thesis
    using syncRun_settles [OF assms(1) _ targets_not_source] by (auto simp: resourceRun_def copyTrace_def)
next
  case False
  then have "t = s"
    using targets_not_source [OF assms(2)]
    by (intro copyTrace_unwritten [OF resourceRun_writesOnly [OF assms(3)] _ _ assms(4)]) (cases item; auto)+
  with assms(5) False show ?thesis by simp
qed

lemma listRun_settles:
  "listRun (resourceRun E n ns peers) xs cs [] None \<Longrightarrow> semanticEquality E \<Longrightarrow> targetsNamespace ns n \<Longrightarrow>
     copyTrace E A n k ns name s cs t \<Longrightarrow> (k, name) \<in> set xs \<or> settledAt A n (set peers) k ns name s \<Longrightarrow>
     settledAt A n (set peers) k ns name t"
proof (induction xs cs "[] :: goerr list" "None :: goerr option" arbitrary: s rule: listRun.induct)
  case finished
  then show ?case by (auto simp: copyTrace_def)
next
  case (synced x cs xs ds)
  then obtain m where "copyTrace E A n k ns name s cs m" "copyTrace E A n k ns name m ds t"
    unfolding copyTrace_append by blast
  moreover have "(k, name) \<in> set xs \<or> settledAt A n (set peers) k ns name m"
    using synced.prems(4) resourceRun_settles [OF synced.prems(1,2) synced(1) calculation(1)] by fastforce
  ultimately show ?case using synced(3) [OF synced.prems(1,2)] by blast
qed

lemma sweepRun_elsewhere:
  assumes "sweepRun E n peers nss cs os" and "ns \<notin> set nss" and "copyTrace E A n k ns name s cs t"
  shows "t = s"
proof (rule copyTrace_unwritten [OF _ _ _ assms(3)])
  show "writesOnly {pl. fst (snd pl) \<noteq> ns \<and> fst (snd pl) \<noteq> SourceNamespace (Spec n)} cs"
    by (rule wo.sweepRun_keeps [OF assms(1)], rule writesOnly_mono, erule resourceRun_writesOnly)
      (use assms(2) targets_not_source in auto)
qed simp_all

lemma sweepRun_settles:
  "sweepRun E n peers nss cs os \<Longrightarrow> semanticEquality E \<Longrightarrow> distinct nss \<Longrightarrow> (ns, [], None) \<in> set os \<Longrightarrow>
     (k, name) \<in> set (worklist n) \<Longrightarrow> copyTrace E A n k ns name s cs t \<Longrightarrow> settledAt A n (set peers) k ns name t"
proof (induction arbitrary: s rule: sweepRun.induct)
  case (visited ns' cs conf e nss ds os)
  from visited.prems(5) obtain m where m: "copyTrace E A n k ns name s cs m" "copyTrace E A n k ns name m ds t"
    unfolding copyTrace_append by blast
  have rest: "ns'' \<in> set nss" if "(ns'', res) \<in> set os" for ns'' res
  proof -
    have "ns'' \<in> set (map fst os)" using that by force
    then show ?thesis using sweepRun_visits [OF visited(3)] by simp
  qed
  show ?case
  proof (cases "ns = ns'")
    case True
    with visited rest have "conf = []" "e = None" by auto
    with visited True m have "settledAt A n (set peers) k ns name m" using listRun_settles by blast
    moreover have "t = m" using visited True m by (intro sweepRun_elsewhere [OF visited(3) _ m(2)]) simp
    ultimately show ?thesis by simp
  next
    case False
    with visited m show ?thesis by auto
  qed
qed auto

text \<open>
  The same with every state in between, and the two conditions apart: the calls are the only ones that
  write source and target, and the cached reads of the two are fresh.
\<close>

fun onlyWriter ::
    "'w env \<Rightarrow> (obj \<Rightarrow> obj) \<Rightarrow> namespaceSync \<Rightarrow> kind \<Rightarrow> string \<Rightarrow> string \<Rightarrow> (obj option \<times> obj option) list \<Rightarrow> call list \<Rightarrow> bool" where
  "onlyWriter E A n k ns name [s] [] \<longleftrightarrow> True"
| "onlyWriter E A n k ns name (s # t # ss) (c # cs) \<longleftrightarrow>
     serverStep E A (k, SourceNamespace (Spec n), name) (fst s) c (fst t) \<and>
     serverStep E A (k, ns, name) (snd s) c (snd t) \<and> onlyWriter E A n k ns name (t # ss) cs"
| "onlyWriter E A n k ns name ss cs \<longleftrightarrow> False"

fun freshReads ::
    "'w env \<Rightarrow> namespaceSync \<Rightarrow> kind \<Rightarrow> string \<Rightarrow> string \<Rightarrow> (obj option \<times> obj option) list \<Rightarrow> call list \<Rightarrow> bool" where
  "freshReads E n k ns name (s # ss) (c # cs) \<longleftrightarrow>
     freshRead E (k, SourceNamespace (Spec n), name) (fst s) c \<and> freshRead E (k, ns, name) (snd s) c \<and>
     freshReads E n k ns name ss cs"
| "freshReads E n k ns name ss cs \<longleftrightarrow> True"

lemma copyTrace_states:
  "onlyWriter E A n k ns name ss cs \<Longrightarrow> freshReads E n k ns name ss cs \<Longrightarrow> copyTrace E A n k ns name (hd ss) cs (last ss)"
  by (induction E A n k ns name ss cs rule: onlyWriter.induct) (auto simp: copyTrace_def objectStep_def)

section \<open>Settled places are left alone\<close>

text \<open>
  \<open>sameCopy\<close>: the same labels, annotations and data at the same place. \<open>leavesAlone\<close>: over these calls
  the source stays as it is and is not written, the stored copy \<open>y\<close> keeps its contents, and if it is up to
  date it is not written either. Such histories compose too.
\<close>

definition sameCopy :: "obj \<Rightarrow> obj \<Rightarrow> bool" where
  "sameCopy y z \<longleftrightarrow> placeOf z = placeOf y \<and> sameContents y z"

lemma sameCopy_refl: "sameCopy y y"
  by (simp add: sameCopy_def sameContents_def)

lemma sameContents_trans: "sameContents a b \<Longrightarrow> sameContents b c \<Longrightarrow> sameContents a c"
  by (simp add: sameContents_def)

lemma sameCopy_trans: "sameCopy a b \<Longrightarrow> sameCopy b c \<Longrightarrow> sameCopy a c"
  by (auto simp: sameCopy_def intro: sameContents_trans)

lemma sameCopy_upToDate: "sameCopy y z \<Longrightarrow> upToDate x z = upToDate x y"
  using upToDate_contents [of y z x] by (simp add: sameCopy_def)

lemma sameCopy_copyAs: "sameCopy y z \<Longrightarrow> copyAs A x y \<Longrightarrow> copyAs A x z"
  using sameCopy_upToDate by (auto simp: copyAs_def sameCopy_def intro: sameContents_trans)

definition leavesAlone ::
    "'w env \<Rightarrow> (obj \<Rightarrow> obj) \<Rightarrow> namespaceSync \<Rightarrow> kind \<Rightarrow> string \<Rightarrow> string \<Rightarrow> obj \<Rightarrow> obj \<Rightarrow> call list \<Rightarrow> bool" where
  "leavesAlone E A n k ns name x y cs \<longleftrightarrow>
     (\<forall>z t. sameCopy y z \<and> copyTrace E A n k ns name (Some x, Some z) cs t \<longrightarrow>
        (\<exists>z'. t = (Some x, Some z') \<and> sameCopy y z') \<and>
        list_all (\<lambda>c. \<not> writesAt (k, SourceNamespace (Spec n), name) c) cs \<and>
        (upToDate x y \<longrightarrow> list_all (\<lambda>c. \<not> writesAt (k, ns, name) c) cs))"

interpretation alone: call_protocol "leavesAlone E A n k ns name x y"
proof unfold_locales
  fix a b :: "call list"
  show "leavesAlone E A n k ns name x y []" by (auto simp: leavesAlone_def copyTrace_def)
  show "leavesAlone E A n k ns name x y (a @ b)"
    if "leavesAlone E A n k ns name x y a" "leavesAlone E A n k ns name x y b"
    using that unfolding leavesAlone_def copyTrace_append list_all_append by blast
qed

text \<open>
  \<open>undisturbed\<close>: over these calls a source and its copy stay at their places, the source as it is, the copy
  with its contents; the source is not written, and the copy is neither if it is up to date, which it is
  where admission changes nothing.
\<close>

definition undisturbed ::
    "(obj \<Rightarrow> obj) \<Rightarrow> namespaceSync \<Rightarrow> kind \<Rightarrow> string \<Rightarrow> string \<Rightarrow> obj option \<times> obj option \<Rightarrow> call list \<Rightarrow> obj option \<times> obj option \<Rightarrow> bool" where
  "undisturbed A n k ns name s cs t \<longleftrightarrow>
     (\<exists>x y z. s = (Some x, Some y) \<and> t = (Some x, Some z) \<and> sameCopy y z \<and>
        list_all (\<lambda>c. \<not> writesAt (k, SourceNamespace (Spec n), name) c) cs \<and>
        (A = (\<lambda>z. z) \<or> upToDate x y \<longrightarrow> z = y \<and> list_all (\<lambda>c. \<not> writesAt (k, ns, name) c) cs))"

lemma leavesAlone_undisturbed:
  assumes "leavesAlone E A n k ns name x y cs" and "copyAs A x y" and "copyTrace E A n k ns name (Some x, Some y) cs t"
  shows "undisturbed A n k ns name (Some x, Some y) cs t"
proof -
  from assms(1,3) sameCopy_refl [of y] obtain z where z: "t = (Some x, Some z)" "sameCopy y z"
    "list_all (\<lambda>c. \<not> writesAt (k, SourceNamespace (Spec n), name) c) cs"
    "upToDate x y \<longrightarrow> list_all (\<lambda>c. \<not> writesAt (k, ns, name) c) cs"
    unfolding leavesAlone_def by blast
  have "z = y \<and> list_all (\<lambda>c. \<not> writesAt (k, ns, name) c) cs" if "A = (\<lambda>z. z) \<or> upToDate x y"
  proof -
    have "upToDate x y" using that assms(2) copyAs_unchanged by blast
    with z(4) have quiet: "list_all (\<lambda>c. \<not> writesAt (k, ns, name) c) cs" by simp
    moreover have "objectTrace E A (k, ns, name) (Some y) cs (Some z)" using assms(3) z(1) by (simp add: copyTrace_def)
    ultimately show ?thesis using objectTrace_unwritten by blast
  qed
  with z show ?thesis unfolding undisturbed_def by blast
qed

lemma leavesAloneI:
  assumes "\<And>z t. sameCopy y z \<Longrightarrow> copyTrace E A n k ns name (Some x, Some z) cs t \<Longrightarrow>
      list_all (\<lambda>c. \<not> writesAt (k, ns, name) c) cs \<and> list_all (\<lambda>c. \<not> writesAt (k, SourceNamespace (Spec n), name) c) cs"
  shows "leavesAlone E A n k ns name x y cs"
  unfolding leavesAlone_def
proof (intro allI impI, elim conjE)
  fix z t assume same: "sameCopy y z" and trace: "copyTrace E A n k ns name (Some x, Some z) cs t"
  note quiet = assms [OF same trace]
  have "t = (Some x, Some z)"
    using trace quiet objectTrace_unwritten unfolding copyTrace_def by (metis fst_conv prod.collapse snd_conv)
  with same quiet show "(\<exists>z'. t = (Some x, Some z') \<and> sameCopy y z') \<and>
      list_all (\<lambda>c. \<not> writesAt (k, SourceNamespace (Spec n), name) c) cs \<and>
      (upToDate x y \<longrightarrow> list_all (\<lambda>c. \<not> writesAt (k, ns, name) c) cs)" by blast
qed

text \<open>Laid over a stored copy, the copy of the same source has the contents admission was given before.\<close>

lemma relaid_contents:
  assumes sem: "semanticEquality E" and A: "quietAdmission A"
    and z: "upToDate x z" "placeOf z = placeOf y" "sameContents (A z) y"
    and z': "sameFrame y z'" "upToDate x z'" "keptStamp E y z'"
  shows "sameContents y (A z')"
proof -
  note u = upToDate_unique [OF z(1) z'(2)]
  have "payloadEntries (payload y) = payloadEntries (payload z')"
    using A [unfolded quietAdmission_def, THEN conjunct1] z(3) u(1) by (simp add: sameContents_def)
  then have equal: "equalIgnoringLabelsAndAnnotations E y z'" by (rule equalIgnoring_iff [OF sem z'(1), THEN iffD2])
  have "mapLookup (getAnnotations y) AnnotationLastSync = mapLookup (getAnnotations (A z)) AnnotationLastSync"
    using z(3) by (simp add: sameContents_def mapLookup_entries)
  also have "\<dots> = mapLookup (getAnnotations z) AnnotationLastSync"
    using A [unfolded quietAdmission_def, THEN conjunct1] by (simp add: stampKeys_def)
  finally have stamp: "mapLookup (getAnnotations y) AnnotationLastSync = mapLookup (getAnnotations z) AnnotationLastSync" .
  obtain st where st: "mapLookup (getAnnotations z) AnnotationLastSync = Some st" using z(1) by (auto simp: upToDate_def)
  then have "mapLookup (getAnnotations z) AnnotationLastSync = mapLookup (getAnnotations z') AnnotationLastSync"
    using z'(3) equal stamp by (simp add: keptStamp_def)
  with u(3) have "mapEntries (getAnnotations z) = mapEntries (getAnnotations z')"
    using mapLookup_entries by (intro fmap_ext) metis
  with u(1,2) have "sameContents z z'" by (simp add: sameContents_def)
  moreover have "placeOf z = placeOf z'" using z(2) sameFrame_place [OF z'(1)] by (simp add: placeOf_def)
  ultimately have "sameContents (A z) (A z')" using A [unfolded quietAdmission_def, THEN conjunct2] by blast
  with z(3) show ?thesis by (simp add: sameContents_def)
qed

lemma syncRun_sameCopy:
  assumes sem: "semanticEquality E" and A: "quietAdmission A"
    and run: "syncRun E k (SourceNamespace (Spec n)) ns name peers explicit cs r"
    and other: "ns \<noteq> SourceNamespace (Spec n)"
    and trace: "copyTrace E A n k ns name (Some x, Some y) cs t" and copy: "copyAs A x y"
  shows "(upToDate x y \<longrightarrow> list_all (\<lambda>c. \<not> isWrite c) cs) \<and> (\<exists>y'. snd t = Some y' \<and> sameCopy y y')"
  using run
proof cases
  case (updated x' y' z q)
  with trace other have xy: "x' = x" "y' = y" by (auto simp: copyTrace_def readOK_def)
  then have "\<not> upToDate x y" using updated in_sync_iff [OF sem, of y z x] by simp
  then obtain z0 where z0: "upToDate x z0" "placeOf z0 = placeOf y" "sameContents (A z0) y" using copy by (auto simp: copyAs_def)
  from relaid_contents [OF sem A z0] updated xy have same: "sameContents y (A z)" by simp
  have place: "placeOf z = placeOf y" using updated xy sameFrame_place [of y z] by (simp add: placeOf_def)
  have "stored A z (snd t) \<or> snd t = Some y"
    using trace updated xy place other by (auto simp: copyTrace_def placeOf_def split: if_splits)
  then have "\<exists>y'. snd t = Some y' \<and> sameCopy y y'"
    using same place sameContents_trans [OF same] sameCopy_refl [of y] by (auto simp: stored_def sameCopy_def)
  with \<open>\<not> upToDate x y\<close> show ?thesis by blast
qed (use trace other sameCopy_refl [of y] in \<open>auto simp: copyTrace_def readOK_def isRead_def placeOf_def\<close>)

lemma resourceRun_leavesAlone:
  assumes sem: "semanticEquality E" "quietAdmission A" and "targetsNamespace tgt n" and run: "resourceRun E n tgt peers item cs r"
    and copy: "copyAs A x y"
  shows "leavesAlone E A n k ns name x y cs"
proof -
  note tgt = targets_not_source [OF assms(3)]
  have source: "list_all (\<lambda>c. \<not> writesAt (k, SourceNamespace (Spec n), name) c) cs"
    using tgt by (intro writesOnly_unwritten [OF resourceRun_writesOnly [OF run]]) auto
  show ?thesis
  proof (cases "(fst item, tgt, snd item) = (k, ns, name)")
    case True
    show ?thesis
      unfolding leavesAlone_def
    proof (intro allI impI, elim conjE)
      fix z t assume same: "sameCopy y z" and trace: "copyTrace E A n k ns name (Some x, Some z) cs t"
      have "syncRun E k (SourceNamespace (Spec n)) ns name peers (listsExplicitly ns n) cs r"
        using run True by (auto simp: resourceRun_def)
      from syncRun_sameCopy [OF sem this _ trace sameCopy_copyAs [OF same copy]] tgt True
      have here: "upToDate x z \<longrightarrow> list_all (\<lambda>c. \<not> isWrite c) cs" "\<exists>y'. snd t = Some y' \<and> sameCopy z y'" by auto
      have "fst t = Some x" using trace source objectTrace_unwritten by (fastforce simp: copyTrace_def)
      with here same source show "(\<exists>z'. t = (Some x, Some z') \<and> sameCopy y z') \<and>
          list_all (\<lambda>c. \<not> writesAt (k, SourceNamespace (Spec n), name) c) cs \<and>
          (upToDate x y \<longrightarrow> list_all (\<lambda>c. \<not> writesAt (k, ns, name) c) cs)"
        using sameCopy_upToDate [OF same] quiet_unwritten by (cases t) (auto intro: sameCopy_trans)
    qed
  next
    case False
    then have "list_all (\<lambda>c. \<not> writesAt (k, ns, name) c) cs"
      by (intro writesOnly_unwritten [OF resourceRun_writesOnly [OF run]]) auto
    with source show ?thesis by (intro leavesAloneI) simp
  qed
qed

lemma quiet_leavesAlone: "list_all (\<lambda>c. \<not> isWrite c) cs \<Longrightarrow> leavesAlone E A n k ns name x y cs"
  by (intro leavesAloneI) (simp add: quiet_unwritten)

lemma quiet_trace: "list_all (\<lambda>c. \<not> isWrite c) cs \<Longrightarrow> copyTrace E A n k ns name s cs t \<Longrightarrow> t = s"
  using objectTrace_unwritten quiet_unwritten unfolding copyTrace_def by (metis prod.collapse)

section \<open>Reconciles\<close>

lemma reconcileRun_leavesAlone:
  assumes sem: "semanticEquality E" "quietAdmission A" and run: "reconcileRun E interval key (CGetSync key (Inr n) # cs) d r"
    and live: "timeIsZero E (deletionTimestamp (nsMeta n))" and "copyAs A x y"
  shows "leavesAlone E A n k ns name x y cs"
  using run
proof cases
  case (reconciled fs nss peers items ds os synced failed conflicted us)
  let ?alone = "leavesAlone E A n k ns name x y"
  have "?alone ds"
    by (rule alone.sweepRun_keeps [OF reconciled(8)]) (rule resourceRun_leavesAlone [OF sem _ _ \<open>copyAs A x y\<close>])
  moreover have "?alone fs" "?alone us"
    using reconciled(5,10) by (simp_all add: quiet_leavesAlone quiet_parts)
  moreover have "?alone [CListNamespaces (Inr nss), CListSyncs (Inr items)]" by (simp add: quiet_leavesAlone)
  ultimately have "?alone (((fs @ [CListNamespaces (Inr nss), CListSyncs (Inr items)]) @ ds) @ us)"
    by (blast intro: alone.Q_append)
  then show ?thesis using reconciled(1) by simp
qed (use live in \<open>auto intro!: quiet_leavesAlone dest: quiet_parts\<close>)

lemma reconcileRun_settles:
  assumes sem: "semanticEquality E" and run: "reconcileRun E interval key (CGetSync key (Inr n) # cs) d None"
    and "d \<noteq> 0" and "deletionTimestamp (nsMeta n) = None"
  shows "\<exists>items m. CListSyncs (Inr items) \<in> set cs \<and> last cs = CUpdateStatus m None \<and>
    (\<forall>ns k name s t. ns \<in> set (SyncedNamespaces (Status m)) \<and> syncsName n (typeName k) name \<and>
       copyTrace E A n k ns name s cs t \<longrightarrow> settledAt A n (livePeers E n items) k ns name t)"
  using run
proof cases
  case (reconciled fs nss peers items ds os synced failed conflicted us)
  have "retried (statusRun key (reports E synced failed conflicted)) us None"
    using reconciled assms(4) by (simp add: statusStep_def)
  from retried_status_last [OF this refl] obtain pre latest m where
    us: "us = pre @ [CGetSync key (Inr latest), CUpdateStatus m None]"
    and rep: "reports E synced failed conflicted latest m" by blast
  have synced: "SyncedNamespaces (Status m) = map fst (filter isSynced os)"
    using rep tally_lists [OF reconciled(9)] by (simp add: reports_def)
  let ?pre = "fs @ [CListNamespaces (Inr nss), CListSyncs (Inr items)]"
  have "settledAt A n (livePeers E n items) k ns name t"
    if h: "ns \<in> set (SyncedNamespaces (Status m))" "syncsName n (typeName k) name" "copyTrace E A n k ns name s cs t"
    for ns k name s t
  proof -
    have "(ns, [], None) \<in> set os" using h(1) synced by (auto simp: isSynced_def)
    moreover have "(k, name) \<in> set (worklist n)" using h(2) by (simp add: worklist_iff)
    moreover obtain u v where "copyTrace E A n k ns name u ds v" "copyTrace E A n k ns name v us t"
      using h(3) reconciled(1) copyTrace_append [of E A n k ns name s ?pre "ds @ us"]
      by (auto simp: copyTrace_append)
    moreover have "t = v" using quiet_trace [OF quiet_parts(1) [OF reconciled(10)]] calculation(4) by blast
    ultimately show ?thesis using sweepRun_settles [OF reconciled(8) sem reconciled(6)] reconciled(7) by metis
  qed
  moreover have "CListSyncs (Inr items) \<in> set cs" "last cs = CUpdateStatus m None" using reconciled(1) us by auto
  ultimately show ?thesis by blast
qed (use assms(3) in auto)

text \<open>In particular, the copy of a source that exists at the end.\<close>

lemma reconcileRun_settled_copy:
  assumes sem: "semanticEquality E" and run: "reconcileRun E interval key (CGetSync key (Inr n) # cs) d None"
    and live: "d \<noteq> 0" "deletionTimestamp (nsMeta n) = None" and last: "last cs = CUpdateStatus m None"
    and rep: "ns \<in> set (SyncedNamespaces (Status m))" "syncsName n (typeName k) name"
    and trace: "copyTrace E A n k ns name s cs t" and "fst t \<noteq> None"
  obtains x y where "t = (Some x, Some y)" and "copyAs A x y" and "placeOf x = (k, SourceNamespace (Spec n), name)"
    and "placeOf y = (k, ns, name)"
proof -
  from reconcileRun_settles [OF sem run live] last rep trace
  obtain P where "settledAt A n P k ns name t" by fastforce
  with \<open>fst t \<noteq> None\<close> that show thesis by (cases t) (auto simp: settled_def)
qed

end
