(* ===== verification/Stability.thy ===== *)
theory Stability
  imports Registers
begin

text \<open>
  The composition of reconciles. A copy one NamespaceSync settled is not only left alone by its own later
  reconciles but by those of every other one that sees it among its peers and has no better claim to the
  place: neither a sync nor the cleanup of a deletion changes it or writes its source.
\<close>

section \<open>Claims seen by a peer\<close>

text \<open>
  \<open>a\<close> still syncs the \<open>k\<close> named \<open>name\<close> from \<open>src\<close> to \<open>ns\<close>, and \<open>b\<close> lists neither the source namespace as
  a target nor, unless \<open>a\<close> does too, the target namespace.
\<close>

definition claims :: "string \<Rightarrow> kind \<Rightarrow> string \<Rightarrow> string \<Rightarrow> namespaceSync \<Rightarrow> namespaceSync \<Rightarrow> bool" where
  "claims src k ns name a b \<longleftrightarrow> syncsInto (typeName k) src ns name a \<and>
     \<not> listsExplicitly src b \<and> (listsExplicitly ns b \<longrightarrow> listsExplicitly ns a)"

lemma claims_source: "claims src k ns name a b \<Longrightarrow> readsAsSource (typeName k) src name a"
  by (simp add: claims_def syncsInto_def readsAsSource_def)

lemma claims_other: "claims src k ns name a b \<Longrightarrow> ns \<noteq> src"
  by (auto simp: claims_def syncsInto_def targetsNamespace_iff)

lemma sameCopy_managed: "sameCopy y z \<Longrightarrow> isManagedCopy z src = isManagedCopy y src"
  by (auto simp: sameCopy_def sameContents_def isManagedCopy_def mapIndex_def mapLookup_entries placeOf_def objKey_def Let_def)

lemma upToDate_copyOf:
  assumes "upToDate x y" and "placeOf x = (k, src, name)" and "placeOf y = (k, ns, name)"
  shows "isManagedCopy y src"
  using assms by (auto simp: upToDate_def isManagedCopy_def mapIndex_def placeOf_def objKey_def Let_def split: option.splits)

lemma copyAs_managed:
  assumes A: "quietAdmission A" and "copyAs A x y" and places: "placeOf x = (k, src, name)" "placeOf y = (k, ns, name)"
  shows "isManagedCopy y src"
  using assms(2) unfolding copyAs_def
proof (elim disjE exE conjE)
  fix z assume z: "upToDate x z" "placeOf z = placeOf y" "sameContents (A z) y"
  have "mapLookup (getAnnotations y) key = mapLookup (getAnnotations z) key" if "key \<in> stampKeys" for key
    using A [unfolded quietAdmission_def, THEN conjunct1, THEN spec, of z] z(3) that by (simp add: sameContents_def mapLookup_entries)
  moreover have "isManagedCopy z src" using upToDate_copyOf [OF z(1) places(1)] z(2) places(2) by simp
  ultimately show ?thesis
    using z(2) by (auto simp: isManagedCopy_def mapIndex_def stampKeys_def placeOf_def objKey_def Let_def)
qed (rule upToDate_copyOf [OF _ places])

section \<open>Syncs\<close>

text \<open>Nothing is written by default over what a peer reads as its source.\<close>

lemma syncRun_claimed:
  assumes "syncRun E k src' tgt name peers False cs r" and "a \<in> set peers" and "readsAsSource (typeName k) tgt name a"
  shows "list_all (\<lambda>c. \<not> isWrite c) cs"
  using assms(1)
proof cases
  case (stale_kept e q rd)
  then show ?thesis by (auto simp: isRead_def)
qed (use assms(2,3) in \<open>auto simp: sourceConflict_None\<close>)

text \<open>Nor over a peer's copy.\<close>

lemma syncRun_owned:
  assumes "syncRun E k src' ns name peers explicit cs r" and "objectTrace E A (k, ns, name) (Some y) cs t"
    and copy: "copyOf a y" "placeOf y = (k, ns, name)" and "SourceNamespace (Spec a) \<noteq> src'"
    and a: "a \<in> set peers" "syncsInto (typeName k) (SourceNamespace (Spec a)) ns name a" "explicit \<longrightarrow> listsExplicitly ns a"
  shows "list_all (\<lambda>c. \<not> isWrite c) cs"
  using assms(1)
proof cases
  case (stale_kept e q rd)
  then show ?thesis by (auto simp: isRead_def)
next
  case (stale_deleted e y' rd d q)
  then have "y' = y" using assms(2) by (auto simp: isRead_def readOK_def)
  then have "isManagedCopy y src'" using stale_deleted by simp
  then show ?thesis using copyOf_from [OF copy(1)] assms(5) by (simp add: isManagedCopy_def Let_def)
next
  case (created x e z)
  then show ?thesis using assms(2) by (auto simp: readOK_def)
next
  case (updated x y' z q)
  then have "y' = y" using assms(2) by (auto simp: readOK_def)
  then have guard: "overwriteAllowed (set peers) (typeName k) src' explicit y"
    using updated by (simp add: guard_iff_policy)
  have place: "getNamespace y = ns" "getName y = name" using copy(2) by (simp_all add: placeOf_def objKey_def)
  show ?thesis
    using guard copyOf_from [OF copy(1)] copy(1) a assms(5)
    unfolding overwriteAllowed_def Let_def place by (auto simp: copyOf_def)
qed simp_all

lemma resourceRun_respects:
  assumes run: "resourceRun E b tgt peers item cs r" and a: "a \<in> set peers" "claims (SourceNamespace (Spec n)) k ns name a b"
    and copy: "copyOf a y" "placeOf y = (k, ns, name)" and "SourceNamespace (Spec b) \<noteq> SourceNamespace (Spec n)"
  shows "leavesAlone E A n k ns name x y cs"
proof (rule leavesAloneI)
  fix z t assume same: "sameCopy y z" and trace: "copyTrace E A n k ns name (Some x, Some z) cs t"
  have z: "copyOf a z" "placeOf z = (k, ns, name)"
    using copy sameCopy_managed [OF same] same by (auto simp: copyOf_def sameCopy_def)
  have src: "SourceNamespace (Spec a) = SourceNamespace (Spec n)" using a(2) by (simp add: claims_def syncsInto_def)
  have place: "list_all (\<lambda>c. \<not> writesAt (k, tgt', name) c) cs"
    if "(fst item, tgt, snd item) = (k, tgt', name) \<Longrightarrow> list_all (\<lambda>c. \<not> isWrite c) cs" for tgt'
  proof (cases "(fst item, tgt, snd item) = (k, tgt', name)")
    case True
    then show ?thesis by (rule quiet_unwritten [OF that])
  next
    case False
    then show ?thesis by (intro writesOnly_unwritten [OF resourceRun_writesOnly [OF run]]) auto
  qed
  show "list_all (\<lambda>c. \<not> writesAt (k, ns, name) c) cs \<and> list_all (\<lambda>c. \<not> writesAt (k, SourceNamespace (Spec n), name) c) cs"
  proof (intro conjI place)
    assume "(fst item, tgt, snd item) = (k, ns, name)"
    with run have "syncRun E k (SourceNamespace (Spec b)) ns name peers (listsExplicitly ns b) cs r"
      by (auto simp: resourceRun_def)
    then show "list_all (\<lambda>c. \<not> isWrite c) cs"
      using trace a src assms(6) by (intro syncRun_owned [OF _ _ z]) (auto simp: copyTrace_def claims_def)
  next
    assume "(fst item, tgt, snd item) = (k, SourceNamespace (Spec n), name)"
    with run a(2) have "syncRun E k (SourceNamespace (Spec b)) (SourceNamespace (Spec n)) name peers False cs r"
      by (auto simp: resourceRun_def claims_def)
    then show "list_all (\<lambda>c. \<not> isWrite c) cs" by (rule syncRun_claimed [OF _ a(1) claims_source [OF a(2)]])
  qed
qed

section \<open>Deletions\<close>

lemma isRead_trace:
  assumes "objectTrace E A pl (Some y) (pre @ [c]) m" and "list_all (\<lambda>c. \<not> writesAt pl c) pre"
    and "c = CGet k key (Inr x) \<or> c = CRead k key (Inr x)" and "readAsked c" and "placeOf x = pl"
  shows "x = y"
proof -
  from assms(1) obtain u where u: "objectTrace E A pl (Some y) pre u" "objectStep E A pl u c m" by (auto simp: objectTrace_append)
  have "u = Some y" by (rule objectTrace_unwritten [OF assms(2) u(1)])
  with u(2) assms(3-5) show ?thesis by (auto simp: readOK_def placeOf_def)
qed

text \<open>
  A cleanup deletes only what it has just read as a copy from its source, so that the object \<open>y\<close> at a
  place is not deleted if it is none, nor anything at a place the cleanup may not touch.
\<close>

lemma deletions_respect:
  assumes guarded: "deletesGuarded P src cs" and only: "list_all (\<lambda>c. isWrite c \<longrightarrow> isDelete c) cs"
    and asked: "list_all readAsked cs" and trace: "objectTrace E A pl (Some y) cs t"
    and kept: "isManagedCopy y src \<Longrightarrow> \<not> P (fst pl) (snd pl)"
  shows "list_all (\<lambda>c. \<not> writesAt pl c) cs"
proof (rule ccontr)
  assume "\<not> list_all (\<lambda>c. \<not> writesAt pl c) cs"
  then obtain pre c post where split: "cs = pre @ c # post" "writesAt pl c" "list_all (\<lambda>c. \<not> writesAt pl c) pre"
    unfolding list_all_iff by (metis split_list_first_prop)
  then have "isDelete c" using only writesAt_isWrite by auto
  then obtain x uid rv e where c: "c = CDelete x uid rv e" by (cases c) auto
  have "pre \<noteq> [] \<and> deleteOK P src (last pre) c"
    using guarded \<open>isDelete c\<close> split(1) unfolding deletesGuarded_def precededBy_def by blast
  then obtain k key where pre: "pre \<noteq> []" "isManagedCopy x src" "P k key"
    "last pre = CGet k key (Inr x) \<or> last pre = CRead k key (Inr x)" by (auto simp: c)
  then obtain pre' where pre': "pre = pre' @ [last pre]" by (metis append_butlast_last_id)
  have "last pre \<in> set pre" using pre(1) by simp
  then have "readAsked (last pre)" using asked split(1) by (auto simp: list_all_iff)
  have pl: "placeOf x = pl" using split(2) c by simp
  obtain m where "objectTrace E A pl (Some y) (pre' @ [last pre]) m"
    using trace split(1) pre' objectTrace_append by metis
  moreover have "list_all (\<lambda>c. \<not> writesAt pl c) pre'" using split(3) pre' by (metis list_all_append)
  ultimately have "x = y" using isRead_trace pre(4) \<open>readAsked (last pre)\<close> pl by blast
  moreover have "pl = (k, key)" using pre(4) \<open>readAsked (last pre)\<close> pl by (auto simp: placeOf_def)
  ultimately show False using kept pre(2,3) by simp
qed

lemma deletionRun_respects:
  assumes run: "deletionRun E b cs r"
    and seen: "\<And>items. CListSyncs (Inr items) \<in> set cs \<Longrightarrow>
      \<exists>a \<in> livePeers E b items. claims (SourceNamespace (Spec n)) k ns name a b"
    and copy: "isManagedCopy y (SourceNamespace (Spec n))"
    and other: "ns \<noteq> SourceNamespace (Spec n)"
  shows "leavesAlone E A n k ns name x y cs"
proof (rule leavesAloneI)
  fix z t assume same: "sameCopy y z" and trace: "copyTrace E A n k ns name (Some x, Some z) cs t"
  let ?src = "SourceNamespace (Spec n)"
  have only: "list_all (\<lambda>c. isWrite c \<longrightarrow> isDelete c) cs" and asked: "list_all readAsked cs"
    using run by (simp_all add: deletionRun_def cleanupCalls_def)
  show "list_all (\<lambda>c. \<not> writesAt (k, ns, name) c) cs \<and> list_all (\<lambda>c. \<not> writesAt (k, ?src, name) c) cs"
  proof (cases "list_all (\<lambda>c. \<not> isDelete c) cs")
    case True
    then have "list_all (\<lambda>c. \<not> isWrite c) cs" using only by (auto simp: list_all_iff)
    then show ?thesis by (simp add: quiet_unwritten)
  next
    case False
    then obtain items where items: "CListSyncs (Inr items) \<in> set cs"
      and guarded: "deletesGuarded (cleanupPlace b (livePeers E b items)) (SourceNamespace (Spec b)) cs"
      using run by (auto simp: deletionRun_def cleanupCalls_def)
    obtain a where a: "a \<in> livePeers E b items" "claims ?src k ns name a b" using seen [OF items] by blast
    note here = deletions_respect [OF guarded only asked]
    have "list_all (\<lambda>c. \<not> writesAt (k, ns, name) c) cs"
    proof (rule here)
      show "objectTrace E A (k, ns, name) (Some z) cs (snd t)" using trace by (simp add: copyTrace_def)
      assume "isManagedCopy z (SourceNamespace (Spec b))"
      then have "SourceNamespace (Spec b) = ?src"
        using copy sameCopy_managed [OF same] by (simp add: isManagedCopy_def Let_def)
      with a show "\<not> cleanupPlace b (livePeers E b items) (fst (k, ns, name)) (snd (k, ns, name))"
        by (auto simp: cleanupPlace_def claims_def)
    qed
    moreover have "list_all (\<lambda>c. \<not> writesAt (k, ?src, name) c) cs"
    proof (rule here)
      show "objectTrace E A (k, ?src, name) (Some x) cs (fst t)" using trace by (simp add: copyTrace_def)
      show "\<not> cleanupPlace b (livePeers E b items) (fst (k, ?src, name)) (snd (k, ?src, name))"
        using a(1) claims_source [OF a(2)] by (auto simp: cleanupPlace_def)
    qed
    ultimately show ?thesis ..
  qed
qed

section \<open>Reconciles\<close>

text \<open>
  A reconcile of \<open>b\<close> with history \<open>cs\<close> that finds the claim respected: \<open>b\<close> is live and has the same
  source, or sees a live peer that claims the place in every list it reads.
\<close>

definition seesClaim :: "'w env \<Rightarrow> namespaceSync \<Rightarrow> kind \<Rightarrow> string \<Rightarrow> string \<Rightarrow> namespaceSync \<Rightarrow> call list \<Rightarrow> bool" where
  "seesClaim E n k ns name b cs \<longleftrightarrow>
     (timeIsZero E (deletionTimestamp (nsMeta b)) \<and> SourceNamespace (Spec b) = SourceNamespace (Spec n)) \<or>
     (\<forall>items. CListSyncs (Inr items) \<in> set cs \<longrightarrow>
        (\<exists>a \<in> livePeers E b items. claims (SourceNamespace (Spec n)) k ns name a b))"

lemma copyTrace_source:
  "SourceNamespace (Spec b) = SourceNamespace (Spec n) \<Longrightarrow> copyTrace E A b k ns name = copyTrace E A n k ns name"
  by (intro ext) (simp add: copyTrace_def)

lemma sweepRun_respects:
  assumes "sweepRun E b peers nss cs os" and "a \<in> set peers" "claims (SourceNamespace (Spec n)) k ns name a b"
    and "copyOf a y" "placeOf y = (k, ns, name)" "SourceNamespace (Spec b) \<noteq> SourceNamespace (Spec n)"
  shows "leavesAlone E A n k ns name x y cs"
  by (rule alone.sweepRun_keeps [OF assms(1)]) (rule resourceRun_respects [OF _ assms(2-6)])

lemma reconcileRun_respects:
  assumes sem: "semanticEquality E" and A: "quietAdmission A"
    and run: "reconcileRun E interval key (CGetSync key (Inr b) # cs) d r"
    and sees: "seesClaim E n k ns name b cs" and up: "copyAs A x y" "placeOf x = (k, SourceNamespace (Spec n), name)"
      "placeOf y = (k, ns, name)" and n: "SourceNamespace (Spec n) \<noteq> []" "ns \<noteq> SourceNamespace (Spec n)"
  shows "leavesAlone E A n k ns name x y cs"
proof (cases "timeIsZero E (deletionTimestamp (nsMeta b)) \<and> SourceNamespace (Spec b) = SourceNamespace (Spec n)")
  case True
  with reconcileRun_leavesAlone [OF sem A run _ up(1), of k ns name] copyTrace_source [of b n E A] show ?thesis
    by (simp add: leavesAlone_def)
next
  case other: False
  note copy = copyAs_managed [OF A up]
  have seen: "\<exists>a \<in> livePeers E b items. claims (SourceNamespace (Spec n)) k ns name a b"
    if "CListSyncs (Inr items) \<in> set cs" for items
    using sees other that by (auto simp: seesClaim_def)
  from run show ?thesis
  proof cases
    case deleting
    then show ?thesis using seen copy n(2) by (intro deletionRun_respects)
  next
    case (reconciled fs nss peers items ds os synced failed conflicted us)
    then obtain a where a: "a \<in> set peers" "claims (SourceNamespace (Spec n)) k ns name a b" using seen [of items] by auto
    then have "copyOf a y" using copy n(1) by (simp add: copyOf_def claims_def syncsInto_def)
    moreover have "SourceNamespace (Spec b) \<noteq> SourceNamespace (Spec n)" using other reconciled by simp
    ultimately have "leavesAlone E A n k ns name x y ds"
      using sweepRun_respects [OF reconciled(8) a] up(3) by blast
    moreover have "leavesAlone E A n k ns name x y fs" "leavesAlone E A n k ns name x y us"
      "leavesAlone E A n k ns name x y [CListNamespaces (Inr nss), CListSyncs (Inr items)]"
      using reconciled(5,10) by (simp_all add: quiet_leavesAlone quiet_parts)
    ultimately have "leavesAlone E A n k ns name x y
        (((fs @ [CListNamespaces (Inr nss), CListSyncs (Inr items)]) @ ds) @ us)"
      by (blast intro: alone.Q_append)
    then show ?thesis using reconciled(1) by simp
  qed (auto intro!: quiet_leavesAlone dest: quiet_parts)
qed

section \<open>Sequences of reconciles\<close>

text \<open>A reconcile of \<open>b\<close>, from any state of the world, whose history is \<open>cs\<close>.\<close>

definition reconcileOf :: "'w env \<Rightarrow> namespaceSync \<Rightarrow> call list \<Rightarrow> bool" where
  "reconcileOf E b cs \<longleftrightarrow>
     (\<exists>interval key s. calls (snd (Reconcile E interval key s)) = calls s @ CGetSync key (Inr b) # cs)"

lemma reconcileOf_run:
  assumes "clientLaws E" and "reconcileOf E b cs"
  obtains interval key d r where "reconcileRun E interval key (CGetSync key (Inr b) # cs) d r"
proof -
  obtain interval key s where s: "calls (snd (Reconcile E interval key s)) = calls s @ CGetSync key (Inr b) # cs"
    using assms(2) by (auto simp: reconcileOf_def)
  obtain d r s' where run: "Reconcile E interval key s = ((d, r), s')" by (metis surj_pair)
  from Reconcile_run [OF assms(1) run] s [unfolded run] that show thesis by auto
qed

definition history :: "(namespaceSync \<times> call list) list \<Rightarrow> call list" where
  "history runs = concat (map snd runs)"

lemma reconciles_respect:
  assumes "clientLaws E" and sem: "semanticEquality E" "quietAdmission A" and up: "copyAs A x y" "placeOf x = (k, SourceNamespace (Spec n), name)"
      "placeOf y = (k, ns, name)" and n: "SourceNamespace (Spec n) \<noteq> []" "ns \<noteq> SourceNamespace (Spec n)"
  shows "list_all (\<lambda>(b, cs). reconcileOf E b cs \<and> seesClaim E n k ns name b cs) runs \<Longrightarrow>
    leavesAlone E A n k ns name x y (history runs)"
proof (induction runs)
  case Nil
  then show ?case by (simp add: history_def alone.Q_Nil)
next
  case (Cons run runs)
  obtain b cs where bc: "run = (b, cs)" by (cases run)
  with Cons.prems have b: "reconcileOf E b cs" "seesClaim E n k ns name b cs" by simp_all
  obtain interval key d r where "reconcileRun E interval key (CGetSync key (Inr b) # cs) d r"
    by (rule reconcileOf_run [OF assms(1) b(1)])
  from reconcileRun_respects [OF sem this b(2) up n] Cons bc show ?case
    by (auto simp: history_def intro: alone.Q_append)
qed

lemma settles_source:
  assumes "reconcileRun E interval key (CGetSync key (Inr n) # cs) d None" and "d \<noteq> 0"
    and "deletionTimestamp (nsMeta n) = None" and "last cs = CUpdateStatus m None" and "ns \<in> set (SyncedNamespaces (Status m))"
  shows "SourceNamespace (Spec n) \<noteq> [] \<and> ns \<noteq> SourceNamespace (Spec n)"
proof -
  from reconcileRun_reported [OF assms(1-3)] obtain nss peers os latest m'
    where os: "outcomesIn E n peers nss os cs" and last: "last cs = CUpdateStatus m' None" and says: "statusSays E latest os m'"
    by (metis append_is_Nil_conv last.simps last_appendR list.distinct(1))
  have "ns \<in> set (map fst os)" using says last assms(4,5) by (auto simp: statusSays_def)
  then have "ns \<in> set (filter (\<lambda>ns. targetsNamespace ns n) nss)" using os by (metis outcomesIn_def)
  then have "targetsNamespace ns n" by simp
  moreover from assms(1) have "validSpec n" by cases (use assms(2) in auto)
  ultimately show ?thesis using targets_not_source by (auto simp: validSpec_def)
qed

end
