(* ===== verification/Progress.thy ===== *)
theory Progress
  imports Safety
begin

text \<open>
  When a reconcile gets through. If every call it makes succeeds, the only thing that can keep a
  namespace from being reported as synced is the conflict policy.
\<close>

section \<open>Calls that succeed\<close>

text \<open>A read may find nothing; what it asks for then is the answer.\<close>

fun callOK :: "'w env \<Rightarrow> call \<Rightarrow> bool" where
  "callOK E (CGet k key (Inl e)) = isNotFound E e"
| "callOK E (CRead k key (Inl e)) = isNotFound E e"
| "callOK E (CCreate z q) = (q = None)"
| "callOK E (CUpdate z (Inl e)) = False"
| "callOK E (CDelete y uid rv q) = (\<forall>e. q = Some e \<longrightarrow> isNotFound E e)"
| "callOK E (CListNamespaces (Inl e)) = False"
| "callOK E (CListSyncs (Inl e)) = False"
| "callOK E (CGetSync key (Inl e)) = False"
| "callOK E (CUpdateSync n q) = (q = None)"
| "callOK E (CUpdateStatus n q) = (q = None)"
| "callOK E c = True"

lemma callOK_not_failed: "callOK E c \<Longrightarrow> \<not> callFailed E c"
  by (cases "(E, c)" rule: callFailed.cases) auto

section \<open>Refusals\<close>

text \<open>
  The policy keeps the \<open>k\<close> named \<open>name\<close> out of \<open>ns\<close>: a peer reads that object as its source, or the
  object found there may not be overwritten.
\<close>

definition refusedAt :: "namespaceSync \<Rightarrow> namespaceSync set \<Rightarrow> kind \<Rightarrow> string \<Rightarrow> string \<Rightarrow> call list \<Rightarrow> bool" where
  "refusedAt n P k ns name cs \<longleftrightarrow>
     (\<not> listsExplicitly ns n \<and> (\<exists>p \<in> P. readsAsSource (typeName k) ns name p)) \<or>
     (\<exists>y. CGet k (ns, name) (Inr y) \<in> set cs \<and>
        \<not> overwriteAllowed P (typeName k) (SourceNamespace (Spec n)) (listsExplicitly ns n) y)"

lemma refusedAt_mono: "refusedAt n P k ns name cs \<Longrightarrow> set cs \<subseteq> set ds \<Longrightarrow> refusedAt n P k ns name ds"
  unfolding refusedAt_def by blast

lemma refusedAt_append:
  "refusedAt n P k ns name cs \<Longrightarrow> refusedAt n P k ns name (cs @ ds)"
  "refusedAt n P k ns name ds \<Longrightarrow> refusedAt n P k ns name (cs @ ds)"
  by (auto elim: refusedAt_mono)

lemma syncRun_refused:
  assumes "syncRun E k (SourceNamespace (Spec n)) ns name peers (listsExplicitly ns n) cs (Some err)"
    and "list_all (callOK E) cs"
  shows "errorsIs err errSyncConflict \<and> refusedAt n (set peers) k ns name cs"
  using assms(1)
proof cases
  case (stale_kept e q rd)
  then show ?thesis
    using assms(2) callOK_not_failed [of E rd] readError_failed [of rd k "(ns, name)" q E "(ns, name)"] by (simp add: isRead_def)
next
  case (stale_deleted e y rd d q)
  then show ?thesis
    using assms(2) callOK_not_failed [of E d] deleteError_failed [of E "(ns, name)" q y] by simp
next
  case (claimed x)
  then have "\<exists>p \<in> set peers. readsAsSource (typeName k) ns name p"
    using sourceConflict_None [of peers "typeName k" ns name] by auto
  with claimed show ?thesis using sourceConflict_is by (auto simp: refusedAt_def)
next
  case (refused y x)
  then have "\<not> overwriteAllowed (set peers) (typeName k) (SourceNamespace (Spec n)) (listsExplicitly ns n) y"
    by (simp add: guard_iff_policy [symmetric])
  with refused copyConflictGuard_is show ?thesis by (auto simp: refusedAt_def)
next
  case (updated x y z q)
  then show ?thesis using assms(2) by (cases q) (auto simp: updateError_def)
qed (use assms(2) in auto)

lemma resourceRun_refused:
  "resourceRun E n ns peers item cs (Some err) \<Longrightarrow> list_all (callOK E) cs \<Longrightarrow>
     errorsIs err errSyncConflict \<and> refusedAt n (set peers) (fst item) ns (snd item) cs"
  unfolding resourceRun_def by (rule syncRun_refused)

lemma listRun_progress:
  "listRun (resourceRun E n ns peers) xs cs conf e \<Longrightarrow> list_all (callOK E) cs \<Longrightarrow>
     e = None \<and> (conf = [] \<or> (\<exists>item \<in> set xs. refusedAt n (set peers) (fst item) ns (snd item) cs))"
proof (induction rule: listRun.induct)
  case (synced x cs xs ds conf e)
  then show ?case by (auto dest: refusedAt_append(2))
next
  case (skipped x cs err xs ds conf e)
  then have "refusedAt n (set peers) (fst x) ns (snd x) (cs @ ds)"
    using resourceRun_refused [OF skipped(1)] by (auto intro: refusedAt_append(1))
  with skipped show ?case by auto
next
  case (stopped x cs err xs)
  then show ?case using resourceRun_refused [OF stopped(1)] by simp
qed simp

lemma sweepRun_progress:
  "sweepRun E n peers nss cs os \<Longrightarrow> list_all (callOK E) cs \<Longrightarrow> out \<in> set os \<Longrightarrow>
     isSynced out \<or> (\<exists>k name. syncsName n (typeName k) name \<and> refusedAt n (set peers) k (fst out) name cs)"
proof (induction rule: sweepRun.induct)
  case (visited ns cs conf e nss ds os)
  show ?case
  proof (cases "out = (ns, conf, e)")
    case True
    with visited listRun_progress [OF visited(2)] show ?thesis
      by (fastforce simp: isSynced_def worklist_iff intro: refusedAt_append(1))
  next
    case False
    with visited show ?thesis by (auto dest: refusedAt_append(2))
  qed
qed simp_all

section \<open>Reconciles\<close>

lemma retried_progress:
  assumes "retried R cs r" and "list_all (callOK E) cs" and "\<And>cs e. R cs (Some e) \<Longrightarrow> \<not> list_all (callOK E) cs"
  shows "r = None"
  using assms by (induction rule: retried.induct) (auto, metis option.exhaust)

lemma finalizerRun_progress: "retried (finalizerRun E key) cs r \<Longrightarrow> list_all (callOK E) cs \<Longrightarrow> r = None"
  by (erule retried_progress) (auto simp: finalizerRun_def)

lemma statusRun_progress: "retried (statusRun key P) cs r \<Longrightarrow> list_all (callOK E) cs \<Longrightarrow> r = None"
  by (erule retried_progress) (auto simp: statusRun_def)

lemma reconcileRun_progress:
  assumes "reconcileRun E interval key (CGetSync key (Inr n) # cs) d r" and ok: "list_all (callOK E) cs"
    and live: "timeIsZero E (deletionTimestamp (nsMeta n))" "deletionTimestamp (nsMeta n) = None" and "validSpec n"
  shows "r = None \<and> d = interval \<and>
    (\<exists>nss items m. CListNamespaces (Inr nss) \<in> set cs \<and> CListSyncs (Inr items) \<in> set cs \<and> last cs = CUpdateStatus m None \<and>
       (\<forall>ns \<in> set nss. targetsNamespace ns n \<longrightarrow> ns \<in> set (SyncedNamespaces (Status m)) \<or>
          (\<exists>k name. syncsName n (typeName k) name \<and> refusedAt n (livePeers E n items) k ns name cs)))"
  using assms(1)
proof cases
  case (reconciled fs nss peers items ds os synced failed conflicted us)
  have us: "retried (statusRun key (reports E synced failed conflicted)) us r"
    using reconciled live by (simp add: statusStep_def)
  have r: "r = None" by (rule statusRun_progress [OF us, of E]) (use ok reconciled(1) in simp)
  from retried_status_last [OF us r] obtain pre latest m where
    last: "us = pre @ [CGetSync key (Inr latest), CUpdateStatus m None]"
    and rep: "reports E synced failed conflicted latest m" by blast
  have synced: "SyncedNamespaces (Status m) = map fst (filter isSynced os)"
    using rep tally_lists [OF reconciled(9)] by (simp add: reports_def)
  have "ns \<in> set (SyncedNamespaces (Status m)) \<or>
      (\<exists>k name. syncsName n (typeName k) name \<and> refusedAt n (livePeers E n items) k ns name cs)"
    if "ns \<in> set nss" "targetsNamespace ns n" for ns
  proof -
    have "ns \<in> set (map fst os)" using that sweepRun_visits [OF reconciled(8)] by simp
    then obtain out where out: "out \<in> set os" "fst out = ns" by auto
    have "isSynced out \<or> (\<exists>k name. syncsName n (typeName k) name \<and> refusedAt n (set peers) k ns name ds)"
      using sweepRun_progress [OF reconciled(8) _ out(1)] ok reconciled(1) out(2) by simp
    then show ?thesis
    proof
      assume "isSynced out"
      with out synced show ?thesis by auto
    next
      assume "\<exists>k name. syncsName n (typeName k) name \<and> refusedAt n (set peers) k ns name ds"
      then obtain k name where r: "syncsName n (typeName k) name" "refusedAt n (set peers) k ns name ds" by blast
      have "set ds \<subseteq> set cs" using reconciled(1) by auto
      with r(2) have "refusedAt n (livePeers E n items) k ns name cs"
        unfolding reconciled(7) [symmetric] by (rule refusedAt_mono)
      with r(1) show ?thesis by blast
    qed
  qed
  moreover have "CListNamespaces (Inr nss) \<in> set cs" "CListSyncs (Inr items) \<in> set cs" "last cs = CUpdateStatus m None"
    using reconciled(1) last by simp_all
  ultimately show ?thesis using r reconciled(11) by (intro conjI exI [of _ nss] exI [of _ items] exI [of _ m]) simp_all
qed (use ok live assms(5) in \<open>auto dest!: finalizerRun_progress simp: validateNamespaceSync_None [of E n, symmetric]\<close>)

section \<open>How many calls\<close>

text \<open>
  The calls about Secrets, ConfigMaps and lists, and the changes among them, counted: \<open>costs a b\<close> allows
  \<open>a\<close> of the first and \<open>b\<close> of the second. The reads and writes of the NamespaceSync itself are left
  out, since how often they are retried is the library's choice.
\<close>

fun objectCall :: "call \<Rightarrow> bool" where
  "objectCall (CGetSync key r) = False"
| "objectCall (CUpdateSync n q) = False"
| "objectCall (CUpdateStatus n q) = False"
| "objectCall c = True"

definition costs :: "nat \<Rightarrow> nat \<Rightarrow> call list \<Rightarrow> bool" where
  "costs a b cs \<longleftrightarrow> length (filter objectCall cs) \<le> a \<and> length (filter isWrite cs) \<le> b"

lemma costs_append: "costs a b cs \<Longrightarrow> costs a' b' ds \<Longrightarrow> costs (a + a') (b + b') (cs @ ds)"
  by (simp add: costs_def)

lemma costs_mono: "costs a b cs \<Longrightarrow> a \<le> a' \<Longrightarrow> b \<le> b' \<Longrightarrow> costs a' b' cs"
  by (simp add: costs_def)

lemma syncRun_costs: "syncRun E k src tgt name peers explicit cs r \<Longrightarrow> costs 3 1 cs"
  by (erule syncRun.cases) (auto simp: costs_def isRead_def)

lemma resourceRun_costs: "resourceRun E n ns peers item cs r \<Longrightarrow> costs 3 1 cs"
  unfolding resourceRun_def by (rule syncRun_costs)

lemma listRun_costs:
  "listRun (resourceRun E n ns peers) xs cs conf e \<Longrightarrow> costs (3 * length xs) (length xs) cs"
proof (induction rule: listRun.induct)
  case (stopped x cs err xs)
  show ?case by (rule costs_mono [OF resourceRun_costs [OF stopped(1)]]) simp_all
next
  case (synced x cs xs ds conf e)
  from costs_append [OF resourceRun_costs [OF synced(1)] synced.IH] show ?case by (simp add: algebra_simps)
next
  case (skipped x cs err xs ds conf e)
  from costs_append [OF resourceRun_costs [OF skipped(1)] skipped.IH] show ?case by (simp add: algebra_simps)
qed (simp add: costs_def)

lemma sweepRun_costs:
  "sweepRun E n peers nss cs os \<Longrightarrow>
     costs (3 * length (filter (\<lambda>ns. targetsNamespace ns n) nss) * length (worklist n))
       (length (filter (\<lambda>ns. targetsNamespace ns n) nss) * length (worklist n)) cs"
proof (induction rule: sweepRun.induct)
  case (visited ns cs conf e nss ds os)
  from costs_append [OF listRun_costs [OF visited(2)] visited.IH] visited(1) show ?case
    by (simp add: algebra_simps)
qed (simp_all add: costs_def)

lemma finalizer_no_object: "retried (finalizerRun E key) cs r \<Longrightarrow> list_all (\<lambda>c. \<not> objectCall c) cs"
  by (erule retried_all) (auto simp: finalizerRun_def)

lemma status_no_object: "retried (statusRun key P) cs r \<Longrightarrow> list_all (\<lambda>c. \<not> objectCall c) cs"
  by (erule retried_all) (auto simp: statusRun_def)

lemma no_object_costs: "list_all (\<lambda>c. \<not> objectCall c) cs \<Longrightarrow> costs 0 0 cs"
proof -
  have "isWrite c \<Longrightarrow> objectCall c" for c by (cases c) simp_all
  then show "list_all (\<lambda>c. \<not> objectCall c) cs \<Longrightarrow> costs 0 0 cs"
    by (auto simp: costs_def list_all_iff filter_empty_conv)
qed

lemma finalizerReady_costs: "finalizerReady E key n fs \<Longrightarrow> costs 0 0 fs"
  by (auto simp: finalizerReady_def costs_def [of _ _ "[]"] split: if_splits intro: no_object_costs finalizer_no_object)

lemma statusStep_costs: "statusStep E n synced failed conflicted us r \<Longrightarrow> costs 0 0 us"
  by (auto simp: statusStep_def costs_def [of _ _ "[]"] split: if_splits intro: no_object_costs status_no_object)

text \<open>The targeted namespaces in a history's namespace list.\<close>

fun listedTargets :: "namespaceSync \<Rightarrow> call list \<Rightarrow> string list" where
  "listedTargets n [] = []"
| "listedTargets n (CListNamespaces (Inr nss) # cs) = filter (\<lambda>ns. targetsNamespace ns n) nss"
| "listedTargets n (c # cs) = listedTargets n cs"

lemma listedTargets_skip: "costs 0 0 fs \<Longrightarrow> listedTargets n (fs @ cs) = listedTargets n cs"
proof (induction fs)
  case (Cons c fs)
  then show ?case by (cases c) (auto simp: costs_def)
qed simp

lemma reconcileRun_costs:
  assumes "reconcileRun E interval key (CGetSync key (Inr n) # cs) d r"
    and live: "timeIsZero E (deletionTimestamp (nsMeta n))"
  shows "costs (2 + 3 * length (listedTargets n cs) * length (worklist n))
    (length (listedTargets n cs) * length (worklist n)) cs"
  using assms(1)
proof cases
  case (reconciled fs nss peers items ds os synced failed conflicted us)
  note fs = finalizerReady_costs [OF reconciled(5)] and us = statusStep_costs [OF reconciled(10)]
  have lists: "costs 2 0 [CListNamespaces (Inr nss), CListSyncs (Inr items)]" by (simp add: costs_def)
  have "listedTargets n cs = filter (\<lambda>ns. targetsNamespace ns n) nss"
    using reconciled(1) listedTargets_skip [OF fs] by simp
  with costs_append [OF fs costs_append [OF lists costs_append [OF sweepRun_costs [OF reconciled(8)] us]]] reconciled(1)
  show ?thesis by simp
next
  case (invalid err r')
  then have "costs 0 0 cs" by (blast intro: no_object_costs status_no_object)
  then show ?thesis by (rule costs_mono) simp_all
next
  case (unfinalized e)
  then have "costs 0 0 cs" by (blast intro: no_object_costs finalizer_no_object)
  then show ?thesis by (rule costs_mono) simp_all
next
  case (namespaces_unread fs e)
  then have "costs (0 + 1) (0 + 0) cs"
    using finalizerReady_costs [OF namespaces_unread(7)] by (simp add: costs_def)
  then show ?thesis by (rule costs_mono) simp_all
next
  case (peers_unread fs nss e)
  then have "costs (0 + 2) (0 + 0) cs"
    using finalizerReady_costs [OF peers_unread(7)] by (simp add: costs_def)
  then show ?thesis by (rule costs_mono) simp_all
qed (use live in simp)

end
