(* ===== verification/Convergence.thy ===== *)
theory Convergence
  imports MemLaws Stability Progress
begin

text \<open>
  What reconciles achieve on the cluster itself. Under the conditions of \<open>Registers\<close>, nobody else writes a
  source and the object its copy is kept in (\<open>onlyWriter\<close>) and the cached reads of the two are fresh
  (\<open>freshReads\<close>), a place reported as synced is settled and later reconciles leave it alone. Without them,
  reconciles whose calls succeed get everywhere the policy lets them, with bounded work.
\<close>

lemma reconcile_history:
  assumes "clientLaws E" and "Reconcile E interval key s = ((d, r), s')"
    and "calls s' = calls s @ CGetSync key (Inr n) # cs"
  shows "reconcileRun E interval key (CGetSync key (Inr n) # cs) d r"
  using Reconcile_run [OF assms(1,2)] assms(3) by auto

text \<open>The history of the run on the small cluster.\<close>

lemma demoRun_calls:
  "\<exists>m. calls (snd demoRun) = [CGetSync (''ops'', ''a'') (Inr demoSync),
     CListNamespaces (Inr [''alpha'', ''team'', ''kube-system'']), CListSyncs (Inr [demoSync]),
     CGet KSecret (''alpha'', ''s'') (Inr (sampleSecret ''alpha'' ''s'' None)),
     CGet KSecret (''team'', ''s'') (Inl memNotFound), CCreate madeCopy None,
     CGetSync (''ops'', ''a'') (Inr demoSync), CUpdateStatus m None] \<and> SyncedNamespaces (Status m) = [''team'']"
  by (simp add: demo_defs copy_defs madeCopy_def)

section \<open>Settling\<close>

text \<open>
  C5. A place reported as synced is settled. Take a reconcile of a live NamespaceSync that ends well, and
  any Secret or ConfigMap it lists and admits, in any namespace its last status write reports as synced.
  Suppose that while it ran nobody else wrote the source or the target object, the server storing what
  admission \<open>A\<close> made of each object sent, and that the cached reads of the two were fresh. Then, at the
  end, if the source exists, the target is an up-to-date copy of it, or what admission made of one. If the
  source does not exist, there is no copy of it at the target, with two exceptions: the copy was deleted
  and waits for its finalizers, or it is kept because a live peer reads it as its own source and the
  namespace is reached by default.
\<close>

theorem reported_synced_is_settled:
  assumes "clientLaws E" and "semanticEquality E"
  shows "case Reconcile E interval key s of ((d, r), s') \<Rightarrow>
    \<forall>n cs. calls s' = calls s @ CGetSync key (Inr n) # cs \<and> r = None \<and> d \<noteq> 0 \<and> deletionTimestamp (nsMeta n) = None \<longrightarrow>
      (\<exists>items m. CListSyncs (Inr items) \<in> set cs \<and> last cs = CUpdateStatus m None \<and>
         (\<forall>ns k name ss. ns \<in> set (SyncedNamespaces (Status m)) \<and> syncsName n (typeName k) name \<and>
            onlyWriter E A n k ns name ss cs \<and> freshReads E n k ns name ss cs \<longrightarrow>
            settledAt A n (livePeers E n items) k ns name (last ss)))"
proof -
  obtain d r s' where run: "Reconcile E interval key s = ((d, r), s')" by (metis surj_pair)
  show ?thesis unfolding run prod.case
  proof (intro allI impI, elim conjE)
    fix n cs assume a: "calls s' = calls s @ CGetSync key (Inr n) # cs" "r = None" "d \<noteq> 0" "deletionTimestamp (nsMeta n) = None"
    from reconcileRun_settles [OF assms(2) reconcile_history [OF assms(1) run a(1), unfolded a(2)] a(3,4), where A = A]
    obtain items m where *: "CListSyncs (Inr items) \<in> set cs" "last cs = CUpdateStatus m None"
      and all: "\<And>ns k name s t. ns \<in> set (SyncedNamespaces (Status m)) \<Longrightarrow> syncsName n (typeName k) name \<Longrightarrow>
        copyTrace E A n k ns name s cs t \<Longrightarrow> settledAt A n (livePeers E n items) k ns name t" by blast
    show "\<exists>items m. CListSyncs (Inr items) \<in> set cs \<and> last cs = CUpdateStatus m None \<and>
         (\<forall>ns k name ss. ns \<in> set (SyncedNamespaces (Status m)) \<and> syncsName n (typeName k) name \<and>
            onlyWriter E A n k ns name ss cs \<and> freshReads E n k ns name ss cs \<longrightarrow>
            settledAt A n (livePeers E n items) k ns name (last ss))"
      using * all copyTrace_states by (intro exI [of _ items] exI [of _ m]) blast
  qed
qed

text \<open>The registers of the source and the copy over the run on the small cluster.\<close>

lemma demo_simps:
  "SourceNamespace (Spec demoSync) = ''alpha''" "deletionTimestamp (nsMeta demoSync) = None"
  "syncsName demoSync (typeName KSecret) ''s''" "\<not> listsExplicitly ''team'' demoSync" "validSpec demoSync"
  by (simp_all add: demoSync_def syncsName_def listsExplicitly_def validSpec_def specPatterns_def)

lemma madeCopy_place: "placeOf madeCopy = (KSecret, ''team'', ''s'')" "placeOf (stamped w madeCopy) = (KSecret, ''team'', ''s'')"
  by (simp_all add: placeOf_def madeCopy_def stamped_def objKey_def getName_def getNamespace_def)

lemma sameContents_sym: "sameContents a b \<Longrightarrow> sameContents b a"
  by (simp add: sameContents_def)

abbreviation (input) unchanged :: "obj \<Rightarrow> obj" where
  "unchanged \<equiv> \<lambda>z. z"

definition demoStates :: "(obj option \<times> obj option) list" where
  "demoStates = replicate 5 (Some (sampleSecret ''alpha'' ''s'' None), None) @
     replicate 3 (Some (sampleSecret ''alpha'' ''s'' None), Some (stamped demoMem madeCopy))"

lemma demoStates_ends:
  "hd demoStates = (Some (sampleSecret ''alpha'' ''s'' None), None)"
  "last demoStates = (Some (sampleSecret ''alpha'' ''s'' None), Some (stamped demoMem madeCopy))"
  by (simp_all add: demoStates_def)

lemma demoRun_states:
  assumes "calls (snd demoRun) = CGetSync (''ops'', ''a'') (Inr demoSync) # cs"
  shows "onlyWriter memEnv unchanged demoSync KSecret ''team'' ''s'' demoStates cs"
    and "freshReads memEnv demoSync KSecret ''team'' ''s'' demoStates cs"
  using demoRun_calls assms sameContents_sym [OF stamped_same(1)]
  by (auto simp: demoStates_def eval_nat_numeral demo_simps readOK_def stored_def madeCopy_place)

theorem reported_synced_is_settled_witness:
  "upToDate (sampleSecret ''alpha'' ''s'' None) (stamped demoMem madeCopy)"
proof -
  obtain s where s: "demoRun = ((ReconcileInterval, None), s)" "s = snd demoRun" by (rule demoRun_split)
  obtain cs m where cs: "calls s = CGetSync (''ops'', ''a'') (Inr demoSync) # cs" "last cs = CUpdateStatus m None"
    "SyncedNamespaces (Status m) = [''team'']" using demoRun_calls unfolding s(1) by auto
  have i: "ReconcileInterval \<noteq> 0" by (simp add: ReconcileInterval_def)
  note H = reported_synced_is_settled [OF memEnv_clientLaws memEnv_semanticEquality, where interval = ReconcileInterval and
      key = "(''ops'', ''a'')" and s = "memStart demoMem" and A = unchanged, unfolded s(1) prod.case demo_start append_Nil]
  from H [THEN spec, THEN spec, THEN mp, OF conjI [OF cs(1) conjI [OF refl conjI [OF i demo_simps(2)]]]] obtain items m'
    where "last cs = CUpdateStatus m' None"
    and all: "\<And>ns k name ss. ns \<in> set (SyncedNamespaces (Status m')) \<Longrightarrow> syncsName demoSync (typeName k) name \<Longrightarrow>
      onlyWriter memEnv unchanged demoSync k ns name ss cs \<Longrightarrow> freshReads memEnv demoSync k ns name ss cs \<Longrightarrow>
      settledAt unchanged demoSync (livePeers memEnv demoSync items) k ns name (last ss)" by blast
  with cs have "''team'' \<in> set (SyncedNamespaces (Status m'))" by simp
  from all [OF this demo_simps(3) demoRun_states] cs(1) show ?thesis
    unfolding s(1) demoStates_ends by (simp add: settled_def copyAs_unchanged)
qed

text \<open>
  C11. The second reconcile is quiet. After a reconcile as above, which left the source in existence, take
  any later reconcile that finds the NamespaceSync not being deleted and with the same source namespace,
  whatever else of its spec, of the peers and of the cluster has changed. Suppose that from the start of
  the first to the end of the second nobody else writes the source or the target, that admission is the
  same and adds no more than labels and annotations, and that the cached reads of the two objects are
  fresh. Then at every place the first one reported as synced the second one does not write the source and
  leaves source and target as they are: the target keeps its labels, annotations and data, and is not
  written at all unless admission had changed the copy.
\<close>

theorem second_reconcile_quiet:
  assumes "clientLaws E" and "semanticEquality E" and "quietAdmission A"
  shows "case Reconcile E interval key s of ((d, r), s') \<Rightarrow> case Reconcile E interval' key t of ((d', r'), t') \<Rightarrow>
    \<forall>n cs m n' cs' ns k name ss ts.
      calls s' = calls s @ CGetSync key (Inr n) # cs \<and> r = None \<and> d \<noteq> 0 \<and> deletionTimestamp (nsMeta n) = None \<and>
      last cs = CUpdateStatus m None \<and> ns \<in> set (SyncedNamespaces (Status m)) \<and> syncsName n (typeName k) name \<and>
      onlyWriter E A n k ns name ss cs \<and> freshReads E n k ns name ss cs \<and> fst (last ss) \<noteq> None \<and>
      calls t' = calls t @ CGetSync key (Inr n') # cs' \<and> timeIsZero E (deletionTimestamp (nsMeta n')) \<and>
      SourceNamespace (Spec n') = SourceNamespace (Spec n) \<and> hd ts = last ss \<and>
      onlyWriter E A n' k ns name ts cs' \<and> freshReads E n' k ns name ts cs' \<longrightarrow>
      undisturbed A n' k ns name (last ss) cs' (last ts)"
proof -
  obtain d r s' where 1: "Reconcile E interval key s = ((d, r), s')" by (metis surj_pair)
  obtain d' r' t' where 2: "Reconcile E interval' key t = ((d', r'), t')" by (metis surj_pair)
  have "undisturbed A n' k ns name (last ss) cs' (last ts)"
    if first: "calls s' = calls s @ CGetSync key (Inr n) # cs" "r = None" "d \<noteq> 0" "deletionTimestamp (nsMeta n) = None"
      "last cs = CUpdateStatus m None" "ns \<in> set (SyncedNamespaces (Status m))" "syncsName n (typeName k) name"
      "onlyWriter E A n k ns name ss cs" "freshReads E n k ns name ss cs" "fst (last ss) \<noteq> None"
      and second: "calls t' = calls t @ CGetSync key (Inr n') # cs'" "timeIsZero E (deletionTimestamp (nsMeta n'))"
      "hd ts = last ss" "onlyWriter E A n' k ns name ts cs'" "freshReads E n' k ns name ts cs'"
    for n cs m n' cs' ns k name ss ts
  proof -
    from reconcileRun_settled_copy [OF assms(2) reconcile_history [OF assms(1) 1 first(1), unfolded first(2)] first(3-7)
        copyTrace_states [OF first(8,9)] first(10)] obtain x y where xy: "last ss = (Some x, Some y)" "copyAs A x y" by blast
    have "leavesAlone E A n' k ns name x y cs'"
      by (rule reconcileRun_leavesAlone [OF assms(2,3) reconcile_history [OF assms(1) 2 second(1)] second(2) xy(2)])
    moreover have "copyTrace E A n' k ns name (Some x, Some y) cs' (last ts)"
      using copyTrace_states [OF second(4,5)] second(3) xy(1) by simp
    ultimately show ?thesis using leavesAlone_undisturbed xy by metis
  qed
  then show ?thesis unfolding 1 2 prod.case by blast
qed

text \<open>The small cluster with the copy in place, and a reconcile of it.\<close>

definition syncedMem :: mem where
  "syncedMem = demoMem\<lparr>memObj := (memObj demoMem)(KSecret := (memObj demoMem KSecret)((''team'', ''s'') \<mapsto> stamped demoMem madeCopy))\<rparr>"

abbreviation nextRun :: "(int \<times> goerr option) \<times> mem st" where
  "nextRun \<equiv> Reconcile memEnv ReconcileInterval (''ops'', ''a'') (memStart syncedMem)"

lemma nextRun_calls:
  "\<exists>m. calls (snd nextRun) = [CGetSync (''ops'', ''a'') (Inr demoSync),
     CListNamespaces (Inr [''alpha'', ''team'', ''kube-system'']), CListSyncs (Inr [demoSync]),
     CGet KSecret (''alpha'', ''s'') (Inr (sampleSecret ''alpha'' ''s'' None)),
     CGet KSecret (''team'', ''s'') (Inr (stamped demoMem madeCopy)),
     CGetSync (''ops'', ''a'') (Inr demoSync), CUpdateStatus m None]"
  by (simp add: demo_defs copy_defs madeCopy_def syncedMem_def stamped_def equalIgnoringLabelsAndAnnotations_def setAnnotations_def setLabels_def getLabels_def)

definition syncedState :: "obj option \<times> obj option" where
  "syncedState = (Some (sampleSecret ''alpha'' ''s'' None), Some (stamped demoMem madeCopy))"

text \<open>Admission that changes nothing, and one that puts a label on every object.\<close>

lemma quietAdmission_unchanged: "quietAdmission unchanged"
  by (simp add: quietAdmission_def)

definition labelling :: "obj \<Rightarrow> obj" where
  "labelling z = setLabels (Some (fmupd ''team'' ''blue'' (mapEntries (getLabels z)))) z"

lemma setLabels_parts:
  "getLabels (setLabels l z) = l" "getAnnotations (setLabels l z) = getAnnotations z" "payload (setLabels l z) = payload z"
  by (simp_all add: setLabels_def getLabels_def getAnnotations_def)

lemma quietAdmission_labelling: "quietAdmission labelling"
  unfolding quietAdmission_def labelling_def sameContents_def setLabels_parts by (simp add: mapEntries_def)

lemma nextRun_states:
  assumes "calls (snd nextRun) = CGetSync (''ops'', ''a'') (Inr demoSync) # cs"
  shows "onlyWriter memEnv unchanged demoSync KSecret ''team'' ''s'' (replicate 7 syncedState) cs"
    and "freshReads memEnv demoSync KSecret ''team'' ''s'' (replicate 7 syncedState) cs"
  using nextRun_calls assms by (auto simp: syncedState_def eval_nat_numeral demo_simps readOK_def)

theorem second_reconcile_quiet_witness:
  "undisturbed unchanged demoSync KSecret ''team'' ''s'' syncedState (tl (calls (snd nextRun))) syncedState"
proof -
  obtain s where s: "demoRun = ((ReconcileInterval, None), s)" "s = snd demoRun" by (rule demoRun_split)
  obtain d' r' t where t: "nextRun = ((d', r'), t)" by (metis surj_pair)
  obtain cs m where cs: "calls s = CGetSync (''ops'', ''a'') (Inr demoSync) # cs" "last cs = CUpdateStatus m None"
    "SyncedNamespaces (Status m) = [''team'']" using demoRun_calls unfolding s(1) by auto
  obtain ds where ds: "calls t = CGetSync (''ops'', ''a'') (Inr demoSync) # ds" using nextRun_calls unfolding t by auto
  have "ReconcileInterval \<noteq> 0" "timeIsZero memEnv (deletionTimestamp (nsMeta demoSync))" "''team'' \<in> set (SyncedNamespaces (Status m))"
    using cs(3) by (simp_all add: ReconcileInterval_def demo_simps)
  moreover note demo_simps(2,3) demoRun_states [unfolded s(1) snd_conv, OF cs(1)] nextRun_states [unfolded t snd_conv, OF ds]
  moreover have "fst (last demoStates) \<noteq> None" "hd (replicate 7 syncedState) = last demoStates" "last (replicate 7 syncedState) = syncedState"
    "last demoStates = syncedState"
    by (simp_all add: demoStates_ends syncedState_def)
  moreover note second_reconcile_quiet [OF memEnv_clientLaws memEnv_semanticEquality quietAdmission_unchanged, where interval = ReconcileInterval
      and interval' = ReconcileInterval and key = "(''ops'', ''a'')" and s = "memStart demoMem" and t = "memStart syncedMem",
      unfolded s(1) t prod.case demo_start append_Nil]
  ultimately have "undisturbed unchanged demoSync KSecret ''team'' ''s'' (last demoStates) ds (last (replicate 7 syncedState))"
    using cs ds by blast
  then show ?thesis using ds demoStates_ends unfolding t by (simp add: syncedState_def)
qed








section \<open>Progress\<close>

text \<open>
  C9. Progress: if every call of a reconcile of a live NamespaceSync with a valid spec succeeds (a read
  may find nothing), it ends without error and asks to be called again after the interval, and its last
  call is a status write. Every targeted namespace is reported as synced there, unless the conflict policy
  keeps some listed and admitted resource out of it.
\<close>

theorem healthy_reconcile_succeeds:
  assumes "clientLaws E"
  shows "case Reconcile E interval key s of ((d, r), s') \<Rightarrow>
    \<forall>n cs. calls s' = calls s @ CGetSync key (Inr n) # cs \<and> list_all (callOK E) cs \<and>
      timeIsZero E (deletionTimestamp (nsMeta n)) \<and> deletionTimestamp (nsMeta n) = None \<and> validSpec n \<longrightarrow>
      r = None \<and> d = interval \<and>
      (\<exists>nss items m. CListNamespaces (Inr nss) \<in> set cs \<and> CListSyncs (Inr items) \<in> set cs \<and> last cs = CUpdateStatus m None \<and>
         (\<forall>ns \<in> set nss. targetsNamespace ns n \<longrightarrow> ns \<in> set (SyncedNamespaces (Status m)) \<or>
            (\<exists>k name. syncsName n (typeName k) name \<and> refusedAt n (livePeers E n items) k ns name cs)))"
proof -
  obtain d r s' where run: "Reconcile E interval key s = ((d, r), s')" by (metis surj_pair)
  show ?thesis unfolding run prod.case
    by (intro allI impI, elim conjE) (rule reconcileRun_progress [OF reconcile_history [OF assms run]])
qed

theorem healthy_reconcile_succeeds_witness:
  "fst demoRun = (ReconcileInterval, None) \<and> list_all (callOK memEnv) (calls (snd demoRun))"
proof -
  obtain d r s where run: "demoRun = ((d, r), s)" by (metis surj_pair)
  obtain cs where cs: "calls s = CGetSync (''ops'', ''a'') (Inr demoSync) # cs" and ok: "list_all (callOK memEnv) cs"
    using demoRun_calls unfolding run by auto
  have live: "timeIsZero memEnv (deletionTimestamp (nsMeta demoSync))" by (simp add: demo_simps)
  note H = healthy_reconcile_succeeds [OF memEnv_clientLaws, where interval = ReconcileInterval and
      key = "(''ops'', ''a'')" and s = "memStart demoMem", unfolded run prod.case demo_start append_Nil]
  from H [THEN spec, THEN spec, THEN mp, OF conjI [OF cs conjI [OF ok conjI [OF live conjI [OF demo_simps(2,5)]]]]]
  show ?thesis unfolding run using cs ok by simp
qed

text \<open>
  C35. A reconcile of a live NamespaceSync is bounded work. Apart from reads and writes of the NamespaceSync
  itself, it makes at most two calls for its lists and three for every pair of a targeted namespace and a
  listed and admitted resource, and changes at most one object for each such pair. \<open>listedTargets\<close> are the
  targeted namespaces of the list it read, none if it read none.
\<close>

theorem reconcile_traffic_bounded:
  assumes "clientLaws E"
  shows "case Reconcile E interval key s of ((d, r), s') \<Rightarrow>
    \<forall>n cs. calls s' = calls s @ CGetSync key (Inr n) # cs \<and> timeIsZero E (deletionTimestamp (nsMeta n)) \<longrightarrow>
      length (filter objectCall cs) \<le> 2 + 3 * length (listedTargets n cs) * length (worklist n) \<and>
      length (filter isWrite cs) \<le> length (listedTargets n cs) * length (worklist n)"
proof -
  obtain d r s' where run: "Reconcile E interval key s = ((d, r), s')" by (metis surj_pair)
  show ?thesis unfolding run prod.case costs_def [symmetric]
    by (intro allI impI, elim conjE) (rule reconcileRun_costs [OF reconcile_history [OF assms run]])
qed

theorem reconcile_traffic_bounded_witness:
  "length (filter objectCall (tl (calls (snd demoRun)))) \<le> 5 \<and> length (filter isWrite (tl (calls (snd demoRun)))) \<le> 1"
proof -
  obtain d r s where run: "demoRun = ((d, r), s)" by (metis surj_pair)
  obtain cs where cs: "calls s = CGetSync (''ops'', ''a'') (Inr demoSync) # cs"
    and targets: "listedTargets demoSync cs = [''team'']"
    using demoRun_calls unfolding run
    by (auto simp: targetsNamespace_def isSystemNamespace_def systemNamespaces_def demoSync_def)
  have live: "timeIsZero memEnv (deletionTimestamp (nsMeta demoSync))" by (simp add: demo_simps)
  have list: "worklist demoSync = [(KSecret, ''s'')]" by (simp add: worklist_def demoSync_def specFilter_def)
  note H = reconcile_traffic_bounded [OF memEnv_clientLaws, where interval = ReconcileInterval and
      key = "(''ops'', ''a'')" and s = "memStart demoMem", unfolded run prod.case demo_start append_Nil]
  from H [THEN spec, THEN spec, THEN mp, OF conjI [OF cs live]]
  show ?thesis unfolding run snd_conv cs list.sel(3) targets list by simp
qed

end
