(* ===== verification/GoHeap.thy ===== *)
theory GoHeap
  imports Prelude
begin

text \<open>
  Go's heap, for the code whose point is what values share: slices, maps and pointers as addresses,
  allocation, and the built-in operations of the generated deep copies. \<open>deep_copier\<close> is the contract of
  a deep copy; it is closed under the ways the generator composes one (pointers, slices of structs,
  one field after another).
\<close>

section \<open>Cells\<close>

text \<open>A slice is nil or an array, an offset and a length; a pointer or map is nil or an address.\<close>

type_synonym slice = "(nat \<times> nat \<times> nat) option"

type_synonym pointer = "nat option"

record 'c heap =
  mem :: "nat \<Rightarrow> 'c option"
  lim :: nat

definition alloc :: "'c \<Rightarrow> 'c heap \<Rightarrow> nat \<times> 'c heap" where
  "alloc c h = (lim h, h\<lparr>mem := (mem h)(lim h \<mapsto> c), lim := Suc (lim h)\<rparr>)"

definition store :: "nat \<Rightarrow> 'c \<Rightarrow> 'c heap \<Rightarrow> 'c heap" where
  "store a c h = h\<lparr>mem := (mem h)(a \<mapsto> c)\<rparr>"

definition agree :: "nat set \<Rightarrow> 'c heap \<Rightarrow> 'c heap \<Rightarrow> bool" where
  "agree A h h' \<longleftrightarrow> (\<forall>a \<in> A. mem h' a = mem h a)"

text \<open>Only new cells were written.\<close>

definition extends :: "'c heap \<Rightarrow> 'c heap \<Rightarrow> bool" where
  "extends h h' \<longleftrightarrow> lim h \<le> lim h' \<and> agree {..<lim h} h h'"

lemma alloc_simps [simp]:
  "fst (alloc c h) = lim h" "lim (snd (alloc c h)) = Suc (lim h)"
  "mem (snd (alloc c h)) = (mem h)(lim h \<mapsto> c)"
  by (simp_all add: alloc_def)

lemma store_simps [simp]: "lim (store a c h) = lim h" "mem (store a c h) = (mem h)(a \<mapsto> c)"
  by (simp_all add: store_def)

lemma agree_refl [simp]: "agree A h h"
  by (simp add: agree_def)

lemma agree_trans: "agree A h h' \<Longrightarrow> agree A h' h'' \<Longrightarrow> agree A h h''"
  by (simp add: agree_def)

lemma agree_mono: "agree A h h' \<Longrightarrow> B \<subseteq> A \<Longrightarrow> agree B h h'"
  by (auto simp: agree_def)

lemma agree_union [simp]: "agree (A \<union> B) h h' \<longleftrightarrow> agree A h h' \<and> agree B h h'"
  by (auto simp: agree_def)

lemma agree_UN: "agree (\<Union>x \<in> X. F x) h h' \<longleftrightarrow> (\<forall>x \<in> X. agree (F x) h h')"
  by (auto simp: agree_def)

lemma agree_store: "a \<notin> A \<Longrightarrow> agree A h (store a c h)"
  by (auto simp: agree_def)

lemma extends_refl [simp]: "extends h h"
  by (simp add: extends_def)

lemma extends_trans: "extends h h' \<Longrightarrow> extends h' h'' \<Longrightarrow> extends h h''"
  unfolding extends_def by (auto simp: agree_def)

lemma extends_agree: "extends h h' \<Longrightarrow> A \<subseteq> {..<lim h} \<Longrightarrow> agree A h h'"
  unfolding extends_def by (auto intro: agree_mono)

lemma extends_alloc: "extends h (snd (alloc c h))"
  by (auto simp: extends_def agree_def)

lemma extends_store: "extends h h' \<Longrightarrow> lim h \<le> a \<Longrightarrow> extends h (store a c h')"
  by (auto simp: extends_def agree_def)

section \<open>The contract\<close>

text \<open>
  A value \<open>a\<close> means \<open>val h a\<close> in the heap \<open>h\<close>, through the cells \<open>foot h a\<close>; \<open>ok\<close> says that these are
  allocated and of the right type. A deep copy writes new cells only, and its result means the same
  through new cells only.
\<close>

locale deep_copier =
  fixes copy :: "'a \<Rightarrow> 'c heap \<Rightarrow> 'a \<times> 'c heap"
    and val :: "'c heap \<Rightarrow> 'a \<Rightarrow> 'v"
    and foot :: "'c heap \<Rightarrow> 'a \<Rightarrow> nat set"
    and ok :: "'c heap \<Rightarrow> 'a \<Rightarrow> bool"
  assumes foot_ok: "ok h a \<Longrightarrow> foot h a \<subseteq> {..<lim h}"
    and val_local: "agree (foot h a) h h' \<Longrightarrow> val h' a = val h a"
    and foot_local: "agree (foot h a) h h' \<Longrightarrow> foot h' a = foot h a"
    and ok_local: "agree (foot h a) h h' \<Longrightarrow> ok h a \<Longrightarrow> lim h \<le> lim h' \<Longrightarrow> ok h' a"
    and copies: "ok h a \<Longrightarrow> copy a h = (b, h') \<Longrightarrow>
      extends h h' \<and> ok h' b \<and> val h' b = val h a \<and> foot h' b \<subseteq> {lim h..<lim h'}"
begin

lemma extended:
  assumes "ok h a" and "extends h h'"
  shows "val h' a = val h a" and "foot h' a = foot h a" and "ok h' a"
proof -
  have "agree (foot h a) h h'" by (rule extends_agree [OF assms(2) foot_ok [OF assms(1)]])
  then show "val h' a = val h a" "foot h' a = foot h a" "ok h' a"
    using val_local foot_local ok_local [OF _ assms(1)] assms(2) by (auto simp: extends_def)
qed

text \<open>The copy and its original share nothing: writing to a cell of one leaves the other as it was.\<close>

lemma independent:
  assumes "ok h a" and "copy a h = (b, h')"
  shows "foot h' a \<inter> foot h' b = {}"
    and "x \<in> foot h' b \<Longrightarrow> val (store x c h') a = val h a"
    and "x \<in> foot h' a \<Longrightarrow> val (store x c h') b = val h a"
proof -
  note c = copies [OF assms]
  note e = extended [OF assms(1) conjunct1 [OF c]]
  have "foot h' a \<subseteq> {..<lim h}" using foot_ok [OF assms(1)] e by simp
  moreover have "foot h' b \<subseteq> {lim h..<lim h'}" using c by simp
  moreover have "{..<lim h} \<inter> {lim h..<lim h'} = {}" by auto
  ultimately have disj: "foot h' a \<inter> foot h' b = {}" by blast
  then show "foot h' a \<inter> foot h' b = {}" .
  show "val (store x c h') a = val h a" if "x \<in> foot h' b"
  proof -
    have "agree (foot h' a) h' (store x c h')" by (rule agree_store) (use disj that in auto)
    then have "val (store x c h') a = val h' a" by (rule val_local)
    then show ?thesis using e by simp
  qed
  show "val (store x c h') b = val h a" if "x \<in> foot h' a"
  proof -
    have "agree (foot h' b) h' (store x c h')" by (rule agree_store) (use disj that in auto)
    then have "val (store x c h') b = val h' b" by (rule val_local)
    then show ?thesis using c by simp
  qed
qed

end

section \<open>Values without references\<close>

definition assignValue :: "'a \<Rightarrow> 'c heap \<Rightarrow> 'a \<times> 'c heap" where
  "assignValue a h = (a, h)"

interpretation plain: deep_copier assignValue "\<lambda>h a. a" "\<lambda>h a. {}" "\<lambda>h a. True"
  by unfold_locales (auto simp: assignValue_def)

section \<open>One field after another\<close>

definition copyBoth ::
    "('a \<Rightarrow> 'c heap \<Rightarrow> 'a \<times> 'c heap) \<Rightarrow> ('b \<Rightarrow> 'c heap \<Rightarrow> 'b \<times> 'c heap) \<Rightarrow> 'a \<times> 'b \<Rightarrow> 'c heap \<Rightarrow> ('a \<times> 'b) \<times> 'c heap" where
  "copyBoth f g p h = (let (a, h) = f (fst p) h; (b, h) = g (snd p) h in ((a, b), h))"

lemma copyBoth_copier:
  assumes "deep_copier f v F p" and "deep_copier g w G q"
  shows "deep_copier (copyBoth f g) (\<lambda>h x. (v h (fst x), w h (snd x)))
    (\<lambda>h x. F h (fst x) \<union> G h (snd x)) (\<lambda>h x. p h (fst x) \<and> q h (snd x))"
proof -
  note f = deep_copier.foot_ok [OF assms(1)] deep_copier.extended [OF assms(1)]
  note g = deep_copier.foot_ok [OF assms(2)] deep_copier.extended [OF assms(2)]
  show ?thesis
  proof unfold_locales
    fix h h' and x
    show "p h (fst x) \<and> q h (snd x) \<Longrightarrow> F h (fst x) \<union> G h (snd x) \<subseteq> {..<lim h}"
      using f(1) g(1) by blast
    assume "agree (F h (fst x) \<union> G h (snd x)) h h'"
    then have "agree (F h (fst x)) h h'" "agree (G h (snd x)) h h'" by simp_all
    note a = deep_copier.val_local [OF assms(1) this(1)] deep_copier.val_local [OF assms(2) this(2)]
        deep_copier.foot_local [OF assms(1) this(1)] deep_copier.foot_local [OF assms(2) this(2)]
        deep_copier.ok_local [OF assms(1) this(1)] deep_copier.ok_local [OF assms(2) this(2)]
    show "(v h' (fst x), w h' (snd x)) = (v h (fst x), w h (snd x))" using a(1,2) by simp
    show "F h' (fst x) \<union> G h' (snd x) = F h (fst x) \<union> G h (snd x)" using a(3,4) by simp
    show "p h (fst x) \<and> q h (snd x) \<Longrightarrow> lim h \<le> lim h' \<Longrightarrow> p h' (fst x) \<and> q h' (snd x)" using a(5,6) by blast
  next
    fix h h2 and x y
    assume ok: "p h (fst x) \<and> q h (snd x)" and run: "copyBoth f g x h = (y, h2)"
    obtain a h1 where 1: "f (fst x) h = (a, h1)" by (metis surj_pair)
    obtain b where 2: "g (snd x) h1 = (b, h2)" and y: "y = (a, b)"
      using run 1 by (auto simp: copyBoth_def split: prod.splits)
    note c1 = deep_copier.copies [OF assms(1) _ 1]
    have e1: "extends h h1" using c1 ok by blast
    note c2 = deep_copier.copies [OF assms(2) g(4) [OF conjunct2 [OF ok] e1] 2]
    have e2: "extends h1 h2" using c2 by blast
    have a: "v h2 a = v h (fst x)" "F h2 a = F h1 a" "p h2 a"
      using c1 ok f(2-4) [OF _ e2] by auto
    have b: "w h2 b = w h (snd x)" "q h2 b" "G h2 b \<subseteq> {lim h1..<lim h2}"
      using c2 ok g(2) [OF _ e1] by auto
    have "F h2 a \<subseteq> {lim h..<lim h1}" using a c1 ok by auto
    moreover have "lim h \<le> lim h1" "lim h1 \<le> lim h2" using e1 e2 by (auto simp: extends_def)
    ultimately show "extends h h2 \<and> (p h2 (fst y) \<and> q h2 (snd y)) \<and> (v h2 (fst y), w h2 (snd y)) = (v h (fst x), w h (snd x)) \<and>
        F h2 (fst y) \<union> G h2 (snd y) \<subseteq> {lim h..<lim h2}"
      using a b y extends_trans [OF e1 e2] by force
  qed
qed

text \<open>
  A struct whose fields, put into a nested pair by \<open>split\<close>, are copied one after another; \<open>plain\<close> are its
  other fields.
\<close>

lemma struct_copier:
  assumes "deep_copier f v F p"
    and "\<And>s h. copy s h = (let (t, h) = f (parts s) h in (build t s, h))"
    and "\<And>t s. parts (build t s) = t" and "\<And>t s. plain (build t s) = plain s"
  shows "deep_copier copy (\<lambda>h s. (plain s, v h (parts s))) (\<lambda>h s. F h (parts s)) (\<lambda>h s. p h (parts s))"
proof unfold_locales
  fix h h' s
  show "p h (parts s) \<Longrightarrow> F h (parts s) \<subseteq> {..<lim h}" by (rule deep_copier.foot_ok [OF assms(1)])
  show "agree (F h (parts s)) h h' \<Longrightarrow> (plain s, v h' (parts s)) = (plain s, v h (parts s))"
    by (simp add: deep_copier.val_local [OF assms(1)])
  show "agree (F h (parts s)) h h' \<Longrightarrow> F h' (parts s) = F h (parts s)" by (rule deep_copier.foot_local [OF assms(1)])
  show "agree (F h (parts s)) h h' \<Longrightarrow> p h (parts s) \<Longrightarrow> lim h \<le> lim h' \<Longrightarrow> p h' (parts s)"
    by (rule deep_copier.ok_local [OF assms(1)])
next
  fix h h' s s'
  assume ok: "p h (parts s)" and run: "copy s h = (s', h')"
  obtain t where f: "f (parts s) h = (t, h')" and s': "s' = build t s"
    using run by (auto simp: assms(2) split: prod.splits)
  show "extends h h' \<and> p h' (parts s') \<and> (plain s', v h' (parts s')) = (plain s, v h (parts s)) \<and>
      F h' (parts s') \<subseteq> {lim h..<lim h'}"
    using deep_copier.copies [OF assms(1) ok f] by (simp add: s' assms(3,4))
qed

text \<open>Any function of the meaning will do as the meaning; what the code does on other values is free.\<close>

lemma copier_view:
  assumes "deep_copier f v F p" and w: "\<And>h a. w h a = g (v h a)" and "\<And>h a. G h a = F h a" and "\<And>h a. q h a = p h a"
    and "\<And>h a. p h a \<Longrightarrow> f' a h = f a h"
  shows "deep_copier f' w G q"
proof -
  have eq: "G = F" "q = p" using assms(3,4) by (auto simp: fun_eq_iff)
  show ?thesis
    unfolding eq
  proof unfold_locales
    fix h h' a b
    show "p h a \<Longrightarrow> F h a \<subseteq> {..<lim h}" by (rule deep_copier.foot_ok [OF assms(1)])
    show "agree (F h a) h h' \<Longrightarrow> w h' a = w h a" unfolding w by (simp add: deep_copier.val_local [OF assms(1)])
    show "agree (F h a) h h' \<Longrightarrow> F h' a = F h a" by (rule deep_copier.foot_local [OF assms(1)])
    show "agree (F h a) h h' \<Longrightarrow> p h a \<Longrightarrow> lim h \<le> lim h' \<Longrightarrow> p h' a" by (rule deep_copier.ok_local [OF assms(1)])
    assume ok: "p h a" and "f' a h = (b, h')"
    then have "f a h = (b, h')" using assms(5) by simp
    from deep_copier.copies [OF assms(1) ok this]
    show "extends h h' \<and> p h' b \<and> w h' b = w h a \<and> F h' b \<subseteq> {lim h..<lim h'}" unfolding w by simp
  qed
qed

section \<open>Pointers\<close>

text \<open>
  \<^verbatim>\<open>out := new(T); in.DeepCopyInto(out)\<close>, and nil for nil: \<open>wrap\<close> makes a cell of a \<open>T\<close>, \<open>unwrap\<close> reads it.
\<close>

definition copyPointer ::
    "('a \<Rightarrow> 'c) \<Rightarrow> ('c option \<Rightarrow> 'a) \<Rightarrow> 'a \<Rightarrow> ('a \<Rightarrow> 'c heap \<Rightarrow> 'a \<times> 'c heap) \<Rightarrow> pointer \<Rightarrow> 'c heap \<Rightarrow> pointer \<times> 'c heap" where
  "copyPointer wrap unwrap zero f p h =
     (case p of
        None \<Rightarrow> (None, h)
      | Some a \<Rightarrow>
          (let (out, h) = alloc (wrap zero) h;
               (v, h) = f (unwrap (mem h a)) h
           in (Some out, store out (wrap v) h)))"

definition pointerVal :: "('c option \<Rightarrow> 'a) \<Rightarrow> ('c heap \<Rightarrow> 'a \<Rightarrow> 'v) \<Rightarrow> 'c heap \<Rightarrow> pointer \<Rightarrow> 'v option" where
  "pointerVal unwrap v h p = map_option (\<lambda>a. v h (unwrap (mem h a))) p"

definition pointerFoot :: "('c option \<Rightarrow> 'a) \<Rightarrow> ('c heap \<Rightarrow> 'a \<Rightarrow> nat set) \<Rightarrow> 'c heap \<Rightarrow> pointer \<Rightarrow> nat set" where
  "pointerFoot unwrap F h p = (case p of None \<Rightarrow> {} | Some a \<Rightarrow> insert a (F h (unwrap (mem h a))))"

definition pointerOk :: "('a \<Rightarrow> 'c) \<Rightarrow> ('c option \<Rightarrow> 'a) \<Rightarrow> ('c heap \<Rightarrow> 'a \<Rightarrow> bool) \<Rightarrow> 'c heap \<Rightarrow> pointer \<Rightarrow> bool" where
  "pointerOk wrap unwrap ok h p \<longleftrightarrow>
     (\<forall>a. p = Some a \<longrightarrow> a < lim h \<and> mem h a = Some (wrap (unwrap (mem h a))) \<and> ok h (unwrap (mem h a)))"

lemma pointer_copier:
  assumes "deep_copier f v F ok" and wrap: "\<And>x. unwrap (Some (wrap x)) = x"
  shows "deep_copier (copyPointer wrap unwrap zero f) (pointerVal unwrap v) (pointerFoot unwrap F) (pointerOk wrap unwrap ok)"
proof -
  note ext = deep_copier.extended [OF assms(1)]
  show ?thesis
  proof unfold_locales
    fix h h' :: "'b heap" and p
    show "pointerOk wrap unwrap ok h p \<Longrightarrow> pointerFoot unwrap F h p \<subseteq> {..<lim h}"
      using deep_copier.foot_ok [OF assms(1), of h] by (auto simp: pointerOk_def pointerFoot_def split: option.splits)
    assume a: "agree (pointerFoot unwrap F h p) h h'"
    have cell: "mem h' x = mem h x" "agree (F h (unwrap (mem h x))) h h'" if "p = Some x" for x
      using a that by (auto simp: pointerFoot_def agree_def)
    show "pointerVal unwrap v h' p = pointerVal unwrap v h p"
      using cell deep_copier.val_local [OF assms(1) cell(2)] by (cases p) (simp_all add: pointerVal_def)
    show "pointerFoot unwrap F h' p = pointerFoot unwrap F h p"
      using cell deep_copier.foot_local [OF assms(1) cell(2)] by (cases p) (simp_all add: pointerFoot_def)
    show "pointerOk wrap unwrap ok h p \<Longrightarrow> lim h \<le> lim h' \<Longrightarrow> pointerOk wrap unwrap ok h' p"
      using cell deep_copier.ok_local [OF assms(1) cell(2)] by (cases p) (simp_all add: pointerOk_def)
  next
    fix h h' :: "'b heap" and p q
    assume ok: "pointerOk wrap unwrap ok h p" and run: "copyPointer wrap unwrap zero f p h = (q, h')"
    show "extends h h' \<and> pointerOk wrap unwrap ok h' q \<and> pointerVal unwrap v h' q = pointerVal unwrap v h p \<and>
        pointerFoot unwrap F h' q \<subseteq> {lim h..<lim h'}"
    proof (cases p)
      case None
      with run show ?thesis by (simp add: copyPointer_def pointerOk_def pointerVal_def pointerFoot_def)
    next
      case (Some a)
      define h1 where "h1 = snd (alloc (wrap zero) h)"
      have e1: "extends h h1" by (simp add: h1_def extends_alloc)
      have a: "a < lim h" "mem h1 a = mem h a" and x: "ok h (unwrap (mem h a))"
        using ok Some by (auto simp: pointerOk_def h1_def)
      obtain y h2 where f: "f (unwrap (mem h a)) h1 = (y, h2)" by (metis surj_pair)
      have q: "q = Some (lim h)" "h' = store (lim h) (wrap y) h2"
        using run Some f a by (auto simp: copyPointer_def h1_def alloc_def split: prod.splits)
      note c = deep_copier.copies [OF assms(1) ext(3) [OF x e1] f]
      have fresh: "lim h \<notin> F h2 y" "lim h < lim h2" using c by (auto simp: h1_def extends_def)
      have "agree (F h2 y) h2 h'" using agree_store [OF fresh(1)] q by simp
      note y = deep_copier.val_local [OF assms(1) this] deep_copier.foot_local [OF assms(1) this]
        deep_copier.ok_local [OF assms(1) this]
      have "v h' y = v h2 y" "F h' y = F h2 y" "ok h' y" using y c q by simp_all
      moreover have "extends h h'" unfolding q by (intro extends_store extends_trans [OF e1]) (use c in auto)
      ultimately show ?thesis
        using q Some c fresh ext(1) [OF x e1]
        by (auto simp: pointerOk_def pointerVal_def pointerFoot_def wrap h1_def)
    qed
  qed
qed

section \<open>Maps\<close>

text \<open>\<^verbatim>\<open>for key, val := range *in { (*out)[key] = val }\<close> over the entries visited, and the whole copy.\<close>

fun mapLoop ::
    "((string, string) fmap \<Rightarrow> 'c) \<Rightarrow> ('c option \<Rightarrow> (string, string) fmap) \<Rightarrow> nat \<Rightarrow> (string \<times> string) list \<Rightarrow> 'c heap \<Rightarrow> 'c heap" where
  "mapLoop wrap unwrap out [] h = h"
| "mapLoop wrap unwrap out ((k, v) # es) h =
     mapLoop wrap unwrap out es (store out (wrap (fmupd k v (unwrap (mem h out)))) h)"

definition copyMap ::
    "((string, string) fmap \<Rightarrow> 'c) \<Rightarrow> ('c option \<Rightarrow> (string, string) fmap) \<Rightarrow> pointer \<Rightarrow> 'c heap \<Rightarrow> pointer \<times> 'c heap" where
  "copyMap wrap unwrap m h =
     (case m of
        None \<Rightarrow> (None, h)
      | Some a \<Rightarrow>
          (let (out, h) = alloc (wrap fmempty) h
           in (Some out, mapLoop wrap unwrap out (mapRange (Some (unwrap (mem h a)))) h)))"

lemma store_store [simp]: "store a c (store a d h) = store a c h"
  by (simp add: store_def)

lemma mapLoop_result:
  assumes "\<And>x. unwrap (Some (wrap x)) = x"
  shows "mapLoop wrap unwrap out es (store out (wrap m) h) = store out (wrap (fold (\<lambda>(k, v). fmupd k v) es m)) h"
  by (induction es arbitrary: m) (auto simp: assms)

lemma fold_entries: "distinct (map fst es) \<Longrightarrow> fmlookup (fold (\<lambda>(k, v). fmupd k v) es m) k =
    (case map_of es k of None \<Rightarrow> fmlookup m k | Some v \<Rightarrow> Some v)"
  by (induction es arbitrary: m) (auto split: option.splits dest: map_of_SomeD simp: rev_image_eqI)

lemma fold_range: "fold (\<lambda>(k, v). fmupd k v) (mapRange (Some m)) fmempty = m"
  by (rule fmap_ext) (simp add: fold_entries mapRange_distinct mapEntries_def split: option.split)

lemma copyMap_pointer:
  assumes wrap: "\<And>x. unwrap (Some (wrap x)) = x" and ok: "pointerOk wrap unwrap (\<lambda>h x. True) h m"
  shows "copyMap wrap unwrap m h = copyPointer wrap unwrap fmempty assignValue m h"
proof (cases m)
  case (Some a)
  have h: "snd (alloc c h) = store (lim h) c (snd (alloc c h))" for c by (simp add: alloc_def store_def)
  have "a < lim h" using ok Some by (simp add: pointerOk_def)
  then show ?thesis
    unfolding copyMap_def copyPointer_def Some
    using mapLoop_result [OF wrap, where h = "snd (alloc (wrap fmempty) h)" and m = fmempty and out = "lim h"]
    by (simp add: split_beta assignValue_def h [symmetric] fold_range)
qed (simp add: copyMap_def copyPointer_def)

lemma copyMap_copier:
  assumes "\<And>x. unwrap (Some (wrap x)) = x"
  shows "deep_copier (copyMap wrap unwrap) (pointerVal unwrap (\<lambda>h x. x)) (pointerFoot unwrap (\<lambda>h x. {}))
    (pointerOk wrap unwrap (\<lambda>h x. True))"
  by (rule copier_view [OF pointer_copier [where wrap = wrap and unwrap = unwrap, OF plain.deep_copier_axioms assms],
      where g = "\<lambda>x. x"])
    (simp_all add: copyMap_pointer assms)

section \<open>Slices\<close>

definition sliceElems :: "('c option \<Rightarrow> 'e list) \<Rightarrow> 'c heap \<Rightarrow> slice \<Rightarrow> 'e list" where
  "sliceElems unwrap h s = (case s of None \<Rightarrow> [] | Some (a, off, n) \<Rightarrow> take n (drop off (unwrap (mem h a))))"

definition sliceVal :: "('c option \<Rightarrow> 'e list) \<Rightarrow> ('c heap \<Rightarrow> 'e \<Rightarrow> 'v) \<Rightarrow> 'c heap \<Rightarrow> slice \<Rightarrow> 'v list option" where
  "sliceVal unwrap v h s = (case s of None \<Rightarrow> None | Some x \<Rightarrow> Some (map (v h) (sliceElems unwrap h s)))"

definition sliceFoot :: "('c option \<Rightarrow> 'e list) \<Rightarrow> ('c heap \<Rightarrow> 'e \<Rightarrow> nat set) \<Rightarrow> 'c heap \<Rightarrow> slice \<Rightarrow> nat set" where
  "sliceFoot unwrap F h s =
     (case s of None \<Rightarrow> {} | Some (a, off, n) \<Rightarrow> insert a (\<Union>x \<in> set (sliceElems unwrap h s). F h x))"

definition sliceOk :: "('e list \<Rightarrow> 'c) \<Rightarrow> ('c option \<Rightarrow> 'e list) \<Rightarrow> ('c heap \<Rightarrow> 'e \<Rightarrow> bool) \<Rightarrow> 'c heap \<Rightarrow> slice \<Rightarrow> bool" where
  "sliceOk wrap unwrap ok h s \<longleftrightarrow>
     (\<forall>a off n. s = Some (a, off, n) \<longrightarrow> a < lim h \<and> mem h a = Some (wrap (unwrap (mem h a))) \<and>
        off + n \<le> length (unwrap (mem h a)) \<and> (\<forall>x \<in> set (sliceElems unwrap h s). ok h x))"

text \<open>What a copy of a slice has to achieve, beside what holds of slices anyway.\<close>

definition copiesSlice ::
    "('e list \<Rightarrow> 'c) \<Rightarrow> ('c option \<Rightarrow> 'e list) \<Rightarrow> ('c heap \<Rightarrow> 'e \<Rightarrow> 'v) \<Rightarrow> ('c heap \<Rightarrow> 'e \<Rightarrow> nat set) \<Rightarrow> ('c heap \<Rightarrow> 'e \<Rightarrow> bool) \<Rightarrow>
     'c heap \<Rightarrow> slice \<Rightarrow> slice \<Rightarrow> 'c heap \<Rightarrow> bool" where
  "copiesSlice wrap unwrap v F ok h s s' h' \<longleftrightarrow>
     extends h h' \<and>
     (case s of
        None \<Rightarrow> s' = None
      | Some (a, off, n) \<Rightarrow>
          (\<exists>out ys. s' = Some (out, 0, n) \<and> lim h \<le> out \<and> out < lim h' \<and> mem h' out = Some (wrap ys) \<and>
             list_all2 (\<lambda>x y. ok h' y \<and> v h' y = v h x \<and> F h' y \<subseteq> {lim h..<lim h'}) (sliceElems unwrap h s) ys))"

lemma list_all2_map_eq: "list_all2 (\<lambda>x y. f y = g x) xs ys \<Longrightarrow> map f ys = map g xs"
  by (induction rule: list_all2_induct) auto

lemma slice_copier:
  assumes "deep_copier f v F ok" and wrap: "\<And>x. unwrap (Some (wrap x)) = x"
    and run: "\<And>h s s' h'. sliceOk wrap unwrap ok h s \<Longrightarrow> copy s h = (s', h') \<Longrightarrow> copiesSlice wrap unwrap v F ok h s s' h'"
  shows "deep_copier copy (sliceVal unwrap v) (sliceFoot unwrap F) (sliceOk wrap unwrap ok)"
proof unfold_locales
  fix h h' s
  show "sliceOk wrap unwrap ok h s \<Longrightarrow> sliceFoot unwrap F h s \<subseteq> {..<lim h}"
    using deep_copier.foot_ok [OF assms(1), of h] by (cases s) (fastforce simp: sliceOk_def sliceFoot_def)+
  assume a: "agree (sliceFoot unwrap F h s) h h'"
  have elems: "sliceElems unwrap h' s = sliceElems unwrap h s"
    using a by (cases s) (auto simp: sliceElems_def sliceFoot_def agree_def)
  have cell: "agree (F h x) h h'" if "x \<in> set (sliceElems unwrap h s)" for x
    using a that by (cases s) (auto simp: sliceElems_def sliceFoot_def agree_def)
  show "sliceVal unwrap v h' s = sliceVal unwrap v h s"
    using elems deep_copier.val_local [OF assms(1) cell] by (cases s) (simp_all add: sliceVal_def)
  show "sliceFoot unwrap F h' s = sliceFoot unwrap F h s"
    using elems deep_copier.foot_local [OF assms(1) cell] by (cases s) (auto simp: sliceFoot_def)
  show "sliceOk wrap unwrap ok h s \<Longrightarrow> lim h \<le> lim h' \<Longrightarrow> sliceOk wrap unwrap ok h' s"
    using elems a deep_copier.ok_local [OF assms(1) cell] by (cases s) (auto simp: sliceOk_def sliceFoot_def agree_def)
next
  fix h h' s s'
  assume ok: "sliceOk wrap unwrap ok h s" and "copy s h = (s', h')"
  then have c: "copiesSlice wrap unwrap v F ok h s s' h'" by (rule run)
  show "extends h h' \<and> sliceOk wrap unwrap ok h' s' \<and> sliceVal unwrap v h' s' = sliceVal unwrap v h s \<and>
      sliceFoot unwrap F h' s' \<subseteq> {lim h..<lim h'}"
  proof (cases s)
    case None
    with c show ?thesis by (simp add: copiesSlice_def sliceOk_def sliceVal_def sliceFoot_def)
  next
    case (Some x)
    obtain a off n where x: "x = (a, off, n)" by (cases x)
    obtain out ys where s': "s' = Some (out, 0, n)" "lim h \<le> out" "out < lim h'" "mem h' out = Some (wrap ys)"
      and ys: "list_all2 (\<lambda>x y. ok h' y \<and> v h' y = v h x \<and> F h' y \<subseteq> {lim h..<lim h'}) (sliceElems unwrap h s) ys"
      using c Some x by (auto simp: copiesSlice_def)
    have len: "length ys = n" using ys ok Some x by (auto simp: sliceOk_def sliceElems_def dest!: list_all2_lengthD)
    have elems: "sliceElems unwrap h' s' = ys" using s' len by (simp add: sliceElems_def wrap)
    have each: "ok h' y \<and> F h' y \<subseteq> {lim h..<lim h'}" if "y \<in> set ys" for y
      using ys that by (auto simp: list_all2_conv_all_nth in_set_conv_nth)
    have "map (v h') ys = map (v h) (sliceElems unwrap h s)"
      by (rule list_all2_map_eq) (rule list_all2_mono [OF ys], simp)
    with c s' elems each len Some x show ?thesis
      by (auto simp: copiesSlice_def sliceOk_def sliceVal_def sliceFoot_def wrap)
  qed
qed

text \<open>\<^verbatim>\<open>*out = make([]T, len(*in)); copy(*out, *in)\<close>, with the built-in \<open>copy\<close>, for elements without references.\<close>

definition goCopy :: "'e list \<Rightarrow> 'e list \<Rightarrow> 'e list" where
  "goCopy dst src = take (length dst) src @ drop (length src) dst"

definition copyValues ::
    "('e list \<Rightarrow> 'c) \<Rightarrow> ('c option \<Rightarrow> 'e list) \<Rightarrow> 'e \<Rightarrow> slice \<Rightarrow> 'c heap \<Rightarrow> slice \<times> 'c heap" where
  "copyValues wrap unwrap zero s h =
     (case s of
        None \<Rightarrow> (None, h)
      | Some (a, off, n) \<Rightarrow>
          (let (out, h) = alloc (wrap (replicate n zero)) h
           in (Some (out, 0, n), store out (wrap (goCopy (unwrap (mem h out)) (sliceElems unwrap h s))) h)))"

lemma copyValues_copier:
  assumes wrap: "\<And>x. unwrap (Some (wrap x)) = x"
  shows "deep_copier (copyValues wrap unwrap zero) (sliceVal unwrap (\<lambda>h x. x)) (sliceFoot unwrap (\<lambda>h x. {}))
    (sliceOk wrap unwrap (\<lambda>h x. True))"
proof (rule slice_copier [OF plain.deep_copier_axioms wrap])
  fix h s s' and h' :: "'b heap"
  assume ok: "sliceOk wrap unwrap (\<lambda>h x. True) h s" and run: "copyValues wrap unwrap zero s h = (s', h')"
  show "copiesSlice wrap unwrap (\<lambda>h x. x) (\<lambda>h x. {}) (\<lambda>h x. True) h s s' h'"
  proof (cases s)
    case (Some x)
    obtain a off n where x: "x = (a, off, n)" by (cases x)
    have len: "length (sliceElems unwrap h s) = n" and a: "a < lim h" using ok Some x by (auto simp: sliceOk_def sliceElems_def)
    define h1 where "h1 = snd (alloc (wrap (replicate n zero)) h)"
    have "sliceElems unwrap h1 s = sliceElems unwrap h s" using Some x a by (simp add: sliceElems_def h1_def)
    then have "s' = Some (lim h, 0, n)" "h' = store (lim h) (wrap (sliceElems unwrap h s)) h1"
      using run Some x len by (auto simp: copyValues_def alloc_def h1_def wrap goCopy_def split: prod.splits)
    with Some x show ?thesis
      by (auto simp: copiesSlice_def h1_def list_all2_same intro!: extends_store extends_alloc)
  qed (use run in \<open>simp add: copyValues_def copiesSlice_def\<close>)
qed

text \<open>
  \<^verbatim>\<open>*out = make([]T, len(*in)); for i := range *in { (*in)[i].DeepCopyInto(&(*out)[i]) }\<close> for structs: the
  loop writes the array \<open>out\<close> in place, from the index \<open>i\<close> on.
\<close>

fun fillLoop ::
    "('e list \<Rightarrow> 'c) \<Rightarrow> ('c option \<Rightarrow> 'e list) \<Rightarrow> ('e \<Rightarrow> 'c heap \<Rightarrow> 'e \<times> 'c heap) \<Rightarrow> nat \<Rightarrow> nat \<Rightarrow> 'e list \<Rightarrow> 'c heap \<Rightarrow> 'c heap" where
  "fillLoop wrap unwrap f out i [] h = h"
| "fillLoop wrap unwrap f out i (x # xs) h =
     (let (y, h) = f x h
      in fillLoop wrap unwrap f out (Suc i) xs (store out (wrap ((unwrap (mem h out))[i := y])) h))"

definition copyStructs ::
    "('e list \<Rightarrow> 'c) \<Rightarrow> ('c option \<Rightarrow> 'e list) \<Rightarrow> 'e \<Rightarrow> ('e \<Rightarrow> 'c heap \<Rightarrow> 'e \<times> 'c heap) \<Rightarrow> slice \<Rightarrow> 'c heap \<Rightarrow> slice \<times> 'c heap" where
  "copyStructs wrap unwrap zero f s h =
     (case s of
        None \<Rightarrow> (None, h)
      | Some (a, off, n) \<Rightarrow>
          (let (out, h) = alloc (wrap (replicate n zero)) h
           in (Some (out, 0, n), fillLoop wrap unwrap f out 0 (sliceElems unwrap h s) h)))"

text \<open>The loop's state: \<open>zs\<close> are the copies of \<open>xs\<close>, made above the limit \<open>l\<close>, and \<open>ys\<close> the array before.\<close>

definition filled ::
    "('c heap \<Rightarrow> 'e \<Rightarrow> 'v) \<Rightarrow> ('c heap \<Rightarrow> 'e \<Rightarrow> nat set) \<Rightarrow> ('c heap \<Rightarrow> 'e \<Rightarrow> bool) \<Rightarrow> nat \<Rightarrow> 'c heap \<Rightarrow> 'e list \<Rightarrow> 'e list \<Rightarrow> 'c heap \<Rightarrow> bool" where
  "filled v F ok out h xs zs h' \<longleftrightarrow>
     lim h \<le> lim h' \<and> agree ({..<lim h} - {out}) h h' \<and>
     list_all2 (\<lambda>x z. ok h' z \<and> v h' z = v h x \<and> F h' z \<subseteq> {lim h..<lim h'}) xs zs"

lemma update_middle: "i < length ys \<Longrightarrow> take (Suc i) (ys[i := y]) @ zs = take i ys @ y # zs"
  by (simp add: take_Suc_conv_app_nth)

lemma fillLoop_filled:
  assumes "deep_copier f v F ok" and wrap: "\<And>x. unwrap (Some (wrap x)) = x"
  shows "\<forall>x \<in> set xs. ok h x \<and> out \<notin> F h x \<Longrightarrow> out < lim h \<Longrightarrow> mem h out = Some (wrap ys) \<Longrightarrow> i + length xs = length ys \<Longrightarrow>
    \<exists>zs. mem (fillLoop wrap unwrap f out i xs h) out = Some (wrap (take i ys @ zs)) \<and>
      filled v F ok out h xs zs (fillLoop wrap unwrap f out i xs h)"
proof (induction xs arbitrary: h i ys)
  case Nil
  then show ?case by (auto simp: filled_def)
next
  case (Cons x xs)
  note ext = deep_copier.extended [OF assms(1)]
  obtain y h1 where f: "f x h = (y, h1)" by (metis surj_pair)
  have c: "extends h h1 \<and> ok h1 y \<and> v h1 y = v h x \<and> F h1 y \<subseteq> {lim h..<lim h1}"
    using Cons.prems(1) by (intro deep_copier.copies [OF assms(1) _ f]) simp
  then have e: "extends h h1" and l: "lim h \<le> lim h1" by (auto simp: extends_def)
  define ys' where "ys' = ys[i := y]"
  define h2 where "h2 = store out (wrap ys') h1"
  have cell: "mem h1 out = Some (wrap ys)" using e Cons.prems(2,3) by (auto simp: extends_def agree_def)
  have run: "fillLoop wrap unwrap f out i (x # xs) h = fillLoop wrap unwrap f out (Suc i) xs h2"
    by (simp add: f cell wrap ys'_def h2_def)
  have same: "v h2 z = v h1 z" "F h2 z = F h1 z" "ok h1 z \<Longrightarrow> ok h2 z" if "out \<notin> F h1 z" for z
  proof -
    have "agree (F h1 z) h1 h2" unfolding h2_def by (rule agree_store) (rule that)
    note this = deep_copier.val_local [OF assms(1) this] deep_copier.foot_local [OF assms(1) this]
      deep_copier.ok_local [OF assms(1) this]
    then show "v h2 z = v h1 z" "F h2 z = F h1 z" "ok h1 z \<Longrightarrow> ok h2 z" by (simp_all add: h2_def)
  qed
  have rest: "ok h2 z \<and> out \<notin> F h2 z \<and> v h2 z = v h z" if "z \<in> set xs" for z
  proof -
    have z: "ok h z" "out \<notin> F h z" using Cons.prems(1) that by auto
    note z1 = ext [OF z(1) e]
    with z same [of z] show ?thesis by simp
  qed
  obtain zs where zs: "mem (fillLoop wrap unwrap f out (Suc i) xs h2) out = Some (wrap (take (Suc i) ys' @ zs))"
    and rec: "filled v F ok out h2 xs zs (fillLoop wrap unwrap f out (Suc i) xs h2)"
    using Cons.IH [of h2 ys' "Suc i"] rest Cons.prems(2,4) l by (auto simp: h2_def ys'_def)
  define h' where "h' = fillLoop wrap unwrap f out (Suc i) xs h2"
  have fresh: "out \<notin> F h1 y" using c Cons.prems(2) by auto
  have l2: "lim h2 = lim h1" by (simp add: h2_def)
  have rec': "lim h1 \<le> lim h'" "agree ({..<lim h1} - {out}) h2 h'"
    "list_all2 (\<lambda>x z. ok h' z \<and> v h' z = v h2 x \<and> F h' z \<subseteq> {lim h1..<lim h'}) xs zs"
    using rec by (simp_all add: filled_def h'_def l2)
  have "agree (F h2 y) h2 h'"
    by (rule agree_mono [OF rec'(2)]) (use same(2) [OF fresh] fresh c in auto)
  note y' = deep_copier.val_local [OF assms(1) this] deep_copier.foot_local [OF assms(1) this]
    deep_copier.ok_local [OF assms(1) this]
  have y: "ok h' y \<and> v h' y = v h x \<and> F h' y \<subseteq> {lim h..<lim h'}"
    using y' same [OF fresh] c rec'(1) by (auto simp: l2)
  have "list_all2 (\<lambda>x z. ok h' z \<and> v h' z = v h x \<and> F h' z \<subseteq> {lim h..<lim h'}) xs zs"
    using rec'(3) rest l by (force simp: list_all2_conv_all_nth)
  moreover have "agree ({..<lim h} - {out}) h h'"
    using e rec'(2) l by (auto simp: extends_def agree_def h2_def)
  ultimately have "filled v F ok out h (x # xs) (y # zs) h'"
    using y rec'(1) l by (simp add: filled_def)
  moreover have "take (Suc i) ys' @ zs = take i ys @ y # zs"
    unfolding ys'_def by (rule update_middle) (use Cons.prems(4) in simp)
  ultimately show ?case using zs unfolding run h'_def by auto
qed

lemma copyStructs_copier:
  assumes "deep_copier f v F ok" and wrap: "\<And>x. unwrap (Some (wrap x)) = x"
  shows "deep_copier (copyStructs wrap unwrap zero f) (sliceVal unwrap v) (sliceFoot unwrap F) (sliceOk wrap unwrap ok)"
proof (rule slice_copier [OF assms])
  fix h s s' and h' :: "'b heap"
  assume ok: "sliceOk wrap unwrap ok h s" and run: "copyStructs wrap unwrap zero f s h = (s', h')"
  show "copiesSlice wrap unwrap v F ok h s s' h'"
  proof (cases s)
    case (Some p)
    obtain a off n where p: "p = (a, off, n)" by (cases p)
    let ?xs = "sliceElems unwrap h s"
    define h1 where "h1 = snd (alloc (wrap (replicate n zero)) h)"
    have len: "length ?xs = n" and a: "a < lim h" and each: "\<forall>x \<in> set ?xs. ok h x"
      using ok Some p by (auto simp: sliceOk_def sliceElems_def)
    have e: "extends h h1" by (simp add: h1_def extends_alloc)
    have elems: "sliceElems unwrap h1 s = ?xs" using Some p a by (simp add: sliceElems_def h1_def)
    have s': "s' = Some (lim h, 0, n)" and h': "h' = fillLoop wrap unwrap f (lim h) 0 ?xs h1"
      using run Some p elems by (auto simp: copyStructs_def alloc_def h1_def split: prod.splits)
    have x: "ok h1 x \<and> lim h \<notin> F h1 x \<and> v h1 x = v h x" if "x \<in> set ?xs" for x
      using deep_copier.extended [OF assms(1) _ e, of x] deep_copier.foot_ok [OF assms(1), of h x] each that by auto
    have "\<exists>zs. mem h' (lim h) = Some (wrap (take 0 (replicate n zero) @ zs)) \<and> filled v F ok (lim h) h1 ?xs zs h'"
      unfolding h' by (rule fillLoop_filled [OF assms]) (use x len in \<open>auto simp: h1_def\<close>)
    then obtain zs where zs: "mem h' (lim h) = Some (wrap zs)" "filled v F ok (lim h) h1 ?xs zs h'" by auto
    have "extends h h'" using zs(2) by (auto simp: filled_def extends_def agree_def h1_def)
    moreover have "list_all2 (\<lambda>x z. ok h' z \<and> v h' z = v h x \<and> F h' z \<subseteq> {lim h..<lim h'}) ?xs zs"
      using zs(2) x by (force simp: filled_def list_all2_conv_all_nth h1_def)
    moreover have "lim h < lim h'" using zs(2) by (simp add: filled_def h1_def)
    ultimately show ?thesis using zs(1) s' Some p by (auto simp: copiesSlice_def)
  qed (use run in \<open>simp add: copyStructs_def copiesSlice_def\<close>)
qed

end
