(* ===== verification/DeepCopy.thy ===== *)
theory DeepCopy
  imports GoHeap
begin

text \<open>
  \<^verbatim>\<open>api/v1/zz_generated.deepcopy.go\<close>: the deep copies of the API types, over a heap in which slices, maps
  and pointers are addresses. The controller changes the objects the client's cache hands out only after
  such a copy, so what matters is that a copy shares nothing with its original.
\<close>

section \<open>The API types in the heap\<close>

text \<open>
  The structs of \<^verbatim>\<open>namespacesync_types.go\<close> as they lie in memory. \<open>'x\<close> are the values of \<^verbatim>\<open>metav1\<close> types
  (\<open>ObjectMeta\<close>, \<open>ListMeta\<close>, \<open>Time\<close>, \<open>Condition\<close>), whose own copies are library code; \<open>TypeMeta\<close> is two
  strings.
\<close>

record hResourceFilter =
  hInclude :: slice
  hFilterExclude :: slice

record hResourceFilters =
  hSecrets :: pointer
  hConfigMaps :: pointer

record hSpec =
  hSourceNamespace :: string
  hTargetNamespaces :: slice
  hConfigMapName :: slice
  hSecretName :: slice
  hExclude :: slice
  hFilters :: pointer

record 'x hStatus =
  hLastSyncTime :: 'x
  hSyncedNamespaces :: slice
  hFailedNamespaces :: pointer
  hConditions :: slice
  hObservedGeneration :: int

record 'x hSync =
  hTypeMeta :: "string \<times> string"
  hObjectMeta :: 'x
  hSyncSpec :: hSpec
  hSyncStatus :: "'x hStatus"

record 'x hSyncList =
  hListTypeMeta :: "string \<times> string"
  hListMeta :: 'x
  hItems :: slice

datatype 'x cell =
    StringArray "string list"
  | StringMap "(string, string) fmap"
  | ConditionArray "'x list"
  | SyncArray "'x hSync list"
  | FilterCell hResourceFilter
  | FiltersCell hResourceFilters
  | SpecCell hSpec
  | StatusCell "'x hStatus"
  | SyncCell "'x hSync"
  | ListCell "'x hSyncList"
  | LibraryCell 'x

record 'x metav1 =
  copyObjectMeta :: "'x \<Rightarrow> 'x cell heap \<Rightarrow> 'x \<times> 'x cell heap"
  copyListMeta :: "'x \<Rightarrow> 'x cell heap \<Rightarrow> 'x \<times> 'x cell heap"
  copyTime :: "'x \<Rightarrow> 'x cell heap \<Rightarrow> 'x \<times> 'x cell heap"
  copyCondition :: "'x \<Rightarrow> 'x cell heap \<Rightarrow> 'x \<times> 'x cell heap"
  zeroObjectMeta :: 'x
  zeroListMeta :: 'x
  zeroTime :: 'x
  zeroCondition :: 'x

text \<open>Zero values, and reading a cell at its type.\<close>

definition zeroFilter :: hResourceFilter where
  "zeroFilter = \<lparr>hInclude = None, hFilterExclude = None\<rparr>"

definition zeroFilters :: hResourceFilters where
  "zeroFilters = \<lparr>hSecrets = None, hConfigMaps = None\<rparr>"

definition zeroSpec :: hSpec where
  "zeroSpec = \<lparr>hSourceNamespace = [], hTargetNamespaces = None, hConfigMapName = None, hSecretName = None,
     hExclude = None, hFilters = None\<rparr>"

definition zeroStatus :: "'x metav1 \<Rightarrow> 'x hStatus" where
  "zeroStatus L = \<lparr>hLastSyncTime = zeroTime L, hSyncedNamespaces = None, hFailedNamespaces = None,
     hConditions = None, hObservedGeneration = 0\<rparr>"

definition zeroSync :: "'x metav1 \<Rightarrow> 'x hSync" where
  "zeroSync L = \<lparr>hTypeMeta = ([], []), hObjectMeta = zeroObjectMeta L, hSyncSpec = zeroSpec, hSyncStatus = zeroStatus L\<rparr>"

definition zeroSyncList :: "'x metav1 \<Rightarrow> 'x hSyncList" where
  "zeroSyncList L = \<lparr>hListTypeMeta = ([], []), hListMeta = zeroListMeta L, hItems = None\<rparr>"

fun asStrings :: "'x cell option \<Rightarrow> string list" where
  "asStrings (Some (StringArray xs)) = xs"
| "asStrings _ = []"

fun asMap :: "'x cell option \<Rightarrow> (string, string) fmap" where
  "asMap (Some (StringMap m)) = m"
| "asMap _ = fmempty"

fun asConditions :: "'x cell option \<Rightarrow> 'x list" where
  "asConditions (Some (ConditionArray xs)) = xs"
| "asConditions _ = []"

fun asSyncs :: "'x cell option \<Rightarrow> 'x hSync list" where
  "asSyncs (Some (SyncArray xs)) = xs"
| "asSyncs _ = []"

fun asFilter :: "'x cell option \<Rightarrow> hResourceFilter" where
  "asFilter (Some (FilterCell x)) = x"
| "asFilter _ = zeroFilter"

fun asFilters :: "'x cell option \<Rightarrow> hResourceFilters" where
  "asFilters (Some (FiltersCell x)) = x"
| "asFilters _ = zeroFilters"

fun asSpec :: "'x cell option \<Rightarrow> hSpec" where
  "asSpec (Some (SpecCell x)) = x"
| "asSpec _ = zeroSpec"

fun asStatus :: "'x metav1 \<Rightarrow> 'x cell option \<Rightarrow> 'x hStatus" where
  "asStatus L (Some (StatusCell x)) = x"
| "asStatus L _ = zeroStatus L"

fun asSync :: "'x metav1 \<Rightarrow> 'x cell option \<Rightarrow> 'x hSync" where
  "asSync L (Some (SyncCell x)) = x"
| "asSync L _ = zeroSync L"

fun asSyncList :: "'x metav1 \<Rightarrow> 'x cell option \<Rightarrow> 'x hSyncList" where
  "asSyncList L (Some (ListCell x)) = x"
| "asSyncList L _ = zeroSyncList L"

section \<open>The generated code\<close>

text \<open>
  \<open>DeepCopyInto\<close> starts with \<^verbatim>\<open>*out = *in\<close> and then replaces the fields that hold references; it returns
  the struct written to \<open>out\<close>. \<open>copyStrings\<close> is the block for a string slice; nil fields are left nil by
  the copying functions, as by the \<^verbatim>\<open>if\<close> around each block.
\<close>

definition copyStrings :: "slice \<Rightarrow> 'x cell heap \<Rightarrow> slice \<times> 'x cell heap" where
  "copyStrings = copyValues StringArray asStrings []"

definition DeepCopyIntoFilter :: "hResourceFilter \<Rightarrow> 'x cell heap \<Rightarrow> hResourceFilter \<times> 'x cell heap" where
  "DeepCopyIntoFilter inp h =
     (let out = inp;
          (s, h) = copyStrings (hInclude inp) h;
          out = out\<lparr>hInclude := s\<rparr>;
          (s, h) = copyStrings (hFilterExclude inp) h;
          out = out\<lparr>hFilterExclude := s\<rparr>
      in (out, h))"

definition DeepCopyFilter :: "pointer \<Rightarrow> 'x cell heap \<Rightarrow> pointer \<times> 'x cell heap" where
  "DeepCopyFilter = copyPointer FilterCell asFilter zeroFilter DeepCopyIntoFilter"

definition DeepCopyIntoFilters :: "hResourceFilters \<Rightarrow> 'x cell heap \<Rightarrow> hResourceFilters \<times> 'x cell heap" where
  "DeepCopyIntoFilters inp h =
     (let out = inp;
          (p, h) = copyPointer FilterCell asFilter zeroFilter DeepCopyIntoFilter (hSecrets inp) h;
          out = out\<lparr>hSecrets := p\<rparr>;
          (p, h) = copyPointer FilterCell asFilter zeroFilter DeepCopyIntoFilter (hConfigMaps inp) h;
          out = out\<lparr>hConfigMaps := p\<rparr>
      in (out, h))"

definition DeepCopyFilters :: "pointer \<Rightarrow> 'x cell heap \<Rightarrow> pointer \<times> 'x cell heap" where
  "DeepCopyFilters = copyPointer FiltersCell asFilters zeroFilters DeepCopyIntoFilters"

definition DeepCopyIntoSpec :: "hSpec \<Rightarrow> 'x cell heap \<Rightarrow> hSpec \<times> 'x cell heap" where
  "DeepCopyIntoSpec inp h =
     (let out = inp;
          (s, h) = copyStrings (hTargetNamespaces inp) h;
          out = out\<lparr>hTargetNamespaces := s\<rparr>;
          (s, h) = copyStrings (hConfigMapName inp) h;
          out = out\<lparr>hConfigMapName := s\<rparr>;
          (s, h) = copyStrings (hSecretName inp) h;
          out = out\<lparr>hSecretName := s\<rparr>;
          (s, h) = copyStrings (hExclude inp) h;
          out = out\<lparr>hExclude := s\<rparr>;
          (p, h) = copyPointer FiltersCell asFilters zeroFilters DeepCopyIntoFilters (hFilters inp) h;
          out = out\<lparr>hFilters := p\<rparr>
      in (out, h))"

definition DeepCopySpec :: "pointer \<Rightarrow> 'x cell heap \<Rightarrow> pointer \<times> 'x cell heap" where
  "DeepCopySpec = copyPointer SpecCell asSpec zeroSpec DeepCopyIntoSpec"

definition DeepCopyIntoStatus :: "'x metav1 \<Rightarrow> 'x hStatus \<Rightarrow> 'x cell heap \<Rightarrow> 'x hStatus \<times> 'x cell heap" where
  "DeepCopyIntoStatus L inp h =
     (let out = inp;
          (t, h) = copyTime L (hLastSyncTime inp) h;
          out = out\<lparr>hLastSyncTime := t\<rparr>;
          (s, h) = copyStrings (hSyncedNamespaces inp) h;
          out = out\<lparr>hSyncedNamespaces := s\<rparr>;
          (m, h) = copyMap StringMap asMap (hFailedNamespaces inp) h;
          out = out\<lparr>hFailedNamespaces := m\<rparr>;
          (s, h) = copyStructs ConditionArray asConditions (zeroCondition L) (copyCondition L) (hConditions inp) h;
          out = out\<lparr>hConditions := s\<rparr>
      in (out, h))"

definition DeepCopyStatus :: "'x metav1 \<Rightarrow> pointer \<Rightarrow> 'x cell heap \<Rightarrow> pointer \<times> 'x cell heap" where
  "DeepCopyStatus L = copyPointer StatusCell (asStatus L) (zeroStatus L) (DeepCopyIntoStatus L)"

definition DeepCopyIntoSync :: "'x metav1 \<Rightarrow> 'x hSync \<Rightarrow> 'x cell heap \<Rightarrow> 'x hSync \<times> 'x cell heap" where
  "DeepCopyIntoSync L inp h =
     (let out = inp;
          out = out\<lparr>hTypeMeta := hTypeMeta inp\<rparr>;
          (m, h) = copyObjectMeta L (hObjectMeta inp) h;
          out = out\<lparr>hObjectMeta := m\<rparr>;
          (s, h) = DeepCopyIntoSpec (hSyncSpec inp) h;
          out = out\<lparr>hSyncSpec := s\<rparr>;
          (s, h) = DeepCopyIntoStatus L (hSyncStatus inp) h;
          out = out\<lparr>hSyncStatus := s\<rparr>
      in (out, h))"

definition DeepCopySync :: "'x metav1 \<Rightarrow> pointer \<Rightarrow> 'x cell heap \<Rightarrow> pointer \<times> 'x cell heap" where
  "DeepCopySync L = copyPointer SyncCell (asSync L) (zeroSync L) (DeepCopyIntoSync L)"

definition DeepCopyIntoSyncList :: "'x metav1 \<Rightarrow> 'x hSyncList \<Rightarrow> 'x cell heap \<Rightarrow> 'x hSyncList \<times> 'x cell heap" where
  "DeepCopyIntoSyncList L inp h =
     (let out = inp;
          out = out\<lparr>hListTypeMeta := hListTypeMeta inp\<rparr>;
          (m, h) = copyListMeta L (hListMeta inp) h;
          out = out\<lparr>hListMeta := m\<rparr>;
          (s, h) = copyStructs SyncArray asSyncs (zeroSync L) (DeepCopyIntoSync L) (hItems inp) h;
          out = out\<lparr>hItems := s\<rparr>
      in (out, h))"

definition DeepCopySyncList :: "'x metav1 \<Rightarrow> pointer \<Rightarrow> 'x cell heap \<Rightarrow> pointer \<times> 'x cell heap" where
  "DeepCopySyncList L = copyPointer ListCell (asSyncList L) (zeroSyncList L) (DeepCopyIntoSyncList L)"

text \<open>
  \<open>DeepCopyObject\<close> returns a \<open>runtime.Object\<close>: a nil interface (\<open>None\<close>), or a pointer of one of the types,
  which Go allows to be nil.
\<close>

datatype runtimeObject = SyncObject pointer | SyncListObject pointer

definition DeepCopyObjectSync :: "'x metav1 \<Rightarrow> pointer \<Rightarrow> 'x cell heap \<Rightarrow> runtimeObject option \<times> 'x cell heap" where
  "DeepCopyObjectSync L p h =
     (let (c, h) = DeepCopySync L p h in if c \<noteq> None then (Some (SyncObject c), h) else (None, h))"

definition DeepCopyObjectSyncList :: "'x metav1 \<Rightarrow> pointer \<Rightarrow> 'x cell heap \<Rightarrow> runtimeObject option \<times> 'x cell heap" where
  "DeepCopyObjectSyncList L p h =
     (let (c, h) = DeepCopySyncList L p h in if c \<noteq> None then (Some (SyncListObject c), h) else (None, h))"

section \<open>What the values mean\<close>

text \<open>
  For every type: what a value means, with nil and empty told apart, the cells it means it through, and
  when it is well formed. For the library's types these are given by a \<open>view\<close>.
\<close>

record ('x, 'v) view =
  viewVal :: "'x cell heap \<Rightarrow> 'x \<Rightarrow> 'v"
  viewFoot :: "'x cell heap \<Rightarrow> 'x \<Rightarrow> nat set"
  viewOk :: "'x cell heap \<Rightarrow> 'x \<Rightarrow> bool"

definition copiesBy :: "('x \<Rightarrow> 'x cell heap \<Rightarrow> 'x \<times> 'x cell heap) \<Rightarrow> ('x, 'v) view \<Rightarrow> bool" where
  "copiesBy f V \<longleftrightarrow> deep_copier f (viewVal V) (viewFoot V) (viewOk V)"

record ('x, 'v) metaViews =
  ofObjectMeta :: "('x, 'v) view"
  ofListMeta :: "('x, 'v) view"
  ofTime :: "('x, 'v) view"
  ofCondition :: "('x, 'v) view"

text \<open>The contract of the library's own deep copies.\<close>

definition metaCopies :: "'x metav1 \<Rightarrow> ('x, 'v) metaViews \<Rightarrow> bool" where
  "metaCopies L V \<longleftrightarrow> copiesBy (copyObjectMeta L) (ofObjectMeta V) \<and> copiesBy (copyListMeta L) (ofListMeta V) \<and>
     copiesBy (copyTime L) (ofTime V) \<and> copiesBy (copyCondition L) (ofCondition V)"

definition stringsVal :: "'x cell heap \<Rightarrow> slice \<Rightarrow> string list option" where
  "stringsVal = sliceVal asStrings (\<lambda>h x. x)"

definition stringsFoot :: "'x cell heap \<Rightarrow> slice \<Rightarrow> nat set" where
  "stringsFoot = sliceFoot asStrings (\<lambda>h x. {})"

definition stringsOk :: "'x cell heap \<Rightarrow> slice \<Rightarrow> bool" where
  "stringsOk = sliceOk StringArray asStrings (\<lambda>h x. True)"

interpretation strings: deep_copier copyStrings stringsVal stringsFoot stringsOk
  unfolding copyStrings_def stringsVal_def stringsFoot_def stringsOk_def
  by (rule copyValues_copier) simp

definition filterVal :: "'x cell heap \<Rightarrow> hResourceFilter \<Rightarrow> string list option \<times> string list option" where
  "filterVal h x = (stringsVal h (hInclude x), stringsVal h (hFilterExclude x))"

definition filterFoot :: "'x cell heap \<Rightarrow> hResourceFilter \<Rightarrow> nat set" where
  "filterFoot h x = stringsFoot h (hInclude x) \<union> stringsFoot h (hFilterExclude x)"

definition filterOk :: "'x cell heap \<Rightarrow> hResourceFilter \<Rightarrow> bool" where
  "filterOk h x \<longleftrightarrow> stringsOk h (hInclude x) \<and> stringsOk h (hFilterExclude x)"

lemmas copies_strings = strings.deep_copier_axioms

interpretation filter: deep_copier DeepCopyIntoFilter filterVal filterFoot filterOk
  by (rule copier_view [OF struct_copier [OF copyBoth_copier [OF copies_strings copies_strings],
      where copy = DeepCopyIntoFilter and parts = "\<lambda>x. (hInclude x, hFilterExclude x)" and plain = "\<lambda>x. ()"
        and build = "\<lambda>(a, b) x. x\<lparr>hInclude := a, hFilterExclude := b\<rparr>"], where g = snd])
    (auto simp: DeepCopyIntoFilter_def copyBoth_def filterVal_def filterFoot_def filterOk_def split: prod.splits)

definition filterPtrVal :: "'x cell heap \<Rightarrow> pointer \<Rightarrow> (string list option \<times> string list option) option" where
  "filterPtrVal = pointerVal asFilter filterVal"

definition filterPtrFoot :: "'x cell heap \<Rightarrow> pointer \<Rightarrow> nat set" where
  "filterPtrFoot = pointerFoot asFilter filterFoot"

definition filterPtrOk :: "'x cell heap \<Rightarrow> pointer \<Rightarrow> bool" where
  "filterPtrOk = pointerOk FilterCell asFilter filterOk"

interpretation filterPtr: deep_copier DeepCopyFilter filterPtrVal filterPtrFoot filterPtrOk
  unfolding DeepCopyFilter_def filterPtrVal_def filterPtrFoot_def filterPtrOk_def
  by (rule pointer_copier [OF filter.deep_copier_axioms]) simp

definition filtersVal where
  "filtersVal h x = (filterPtrVal h (hSecrets x), filterPtrVal h (hConfigMaps x))"

definition filtersFoot :: "'x cell heap \<Rightarrow> hResourceFilters \<Rightarrow> nat set" where
  "filtersFoot h x = filterPtrFoot h (hSecrets x) \<union> filterPtrFoot h (hConfigMaps x)"

definition filtersOk :: "'x cell heap \<Rightarrow> hResourceFilters \<Rightarrow> bool" where
  "filtersOk h x \<longleftrightarrow> filterPtrOk h (hSecrets x) \<and> filterPtrOk h (hConfigMaps x)"

interpretation filters: deep_copier DeepCopyIntoFilters filtersVal filtersFoot filtersOk
  by (rule copier_view [OF struct_copier [OF copyBoth_copier [OF filterPtr.deep_copier_axioms filterPtr.deep_copier_axioms],
      where copy = DeepCopyIntoFilters and parts = "\<lambda>x. (hSecrets x, hConfigMaps x)" and plain = "\<lambda>x. ()"
        and build = "\<lambda>(a, b) x. x\<lparr>hSecrets := a, hConfigMaps := b\<rparr>"], where g = snd])
    (auto simp: DeepCopyIntoFilters_def DeepCopyFilter_def copyBoth_def filtersVal_def filtersFoot_def filtersOk_def split: prod.splits)

definition filtersPtrVal where
  "filtersPtrVal = pointerVal asFilters filtersVal"

definition filtersPtrFoot :: "'x cell heap \<Rightarrow> pointer \<Rightarrow> nat set" where
  "filtersPtrFoot = pointerFoot asFilters filtersFoot"

definition filtersPtrOk :: "'x cell heap \<Rightarrow> pointer \<Rightarrow> bool" where
  "filtersPtrOk = pointerOk FiltersCell asFilters filtersOk"

interpretation filtersPtr: deep_copier DeepCopyFilters filtersPtrVal filtersPtrFoot filtersPtrOk
  unfolding DeepCopyFilters_def filtersPtrVal_def filtersPtrFoot_def filtersPtrOk_def
  by (rule pointer_copier [OF filters.deep_copier_axioms]) simp

definition specVal where
  "specVal h x = (hSourceNamespace x, stringsVal h (hTargetNamespaces x), stringsVal h (hConfigMapName x),
     stringsVal h (hSecretName x), stringsVal h (hExclude x), filtersPtrVal h (hFilters x))"

definition specFoot :: "'x cell heap \<Rightarrow> hSpec \<Rightarrow> nat set" where
  "specFoot h x = stringsFoot h (hTargetNamespaces x) \<union> (stringsFoot h (hConfigMapName x) \<union>
     (stringsFoot h (hSecretName x) \<union> (stringsFoot h (hExclude x) \<union> filtersPtrFoot h (hFilters x))))"

definition specOk :: "'x cell heap \<Rightarrow> hSpec \<Rightarrow> bool" where
  "specOk h x \<longleftrightarrow> stringsOk h (hTargetNamespaces x) \<and> stringsOk h (hConfigMapName x) \<and>
     stringsOk h (hSecretName x) \<and> stringsOk h (hExclude x) \<and> filtersPtrOk h (hFilters x)"

interpretation spec: deep_copier DeepCopyIntoSpec specVal specFoot specOk
  by (rule copier_view [OF struct_copier [OF copyBoth_copier [OF copies_strings copyBoth_copier [OF copies_strings
        copyBoth_copier [OF copies_strings copyBoth_copier [OF copies_strings filtersPtr.deep_copier_axioms]]]],
      where copy = DeepCopyIntoSpec
        and parts = "\<lambda>x. (hTargetNamespaces x, hConfigMapName x, hSecretName x, hExclude x, hFilters x)"
        and plain = hSourceNamespace
        and build = "\<lambda>(a, b, c, d, e) x. x\<lparr>hTargetNamespaces := a, hConfigMapName := b, hSecretName := c,
          hExclude := d, hFilters := e\<rparr>"], where g = "\<lambda>x. x"])
    (auto simp: DeepCopyIntoSpec_def DeepCopyFilters_def copyBoth_def specVal_def specFoot_def specOk_def split: prod.splits)

definition failedVal :: "'x cell heap \<Rightarrow> pointer \<Rightarrow> (string, string) fmap option" where
  "failedVal = pointerVal asMap (\<lambda>h x. x)"

definition failedFoot :: "'x cell heap \<Rightarrow> pointer \<Rightarrow> nat set" where
  "failedFoot = pointerFoot asMap (\<lambda>h x. {})"

definition failedOk :: "'x cell heap \<Rightarrow> pointer \<Rightarrow> bool" where
  "failedOk = pointerOk StringMap asMap (\<lambda>h x. True)"

interpretation failedMap: deep_copier "copyMap StringMap asMap" failedVal failedFoot failedOk
  unfolding failedVal_def failedFoot_def failedOk_def by (rule copyMap_copier) simp

text \<open>The types that hold library values, under the contract of these.\<close>

definition conditionsVal where
  "conditionsVal V = sliceVal asConditions (viewVal (ofCondition V))"

definition conditionsFoot :: "('x, 'v) metaViews \<Rightarrow> 'x cell heap \<Rightarrow> slice \<Rightarrow> nat set" where
  "conditionsFoot V = sliceFoot asConditions (viewFoot (ofCondition V))"

definition conditionsOk :: "('x, 'v) metaViews \<Rightarrow> 'x cell heap \<Rightarrow> slice \<Rightarrow> bool" where
  "conditionsOk V = sliceOk ConditionArray asConditions (viewOk (ofCondition V))"

definition statusVal where
  "statusVal V h x = (viewVal (ofTime V) h (hLastSyncTime x), stringsVal h (hSyncedNamespaces x),
     failedVal h (hFailedNamespaces x), conditionsVal V h (hConditions x), hObservedGeneration x)"

definition statusFoot :: "('x, 'v) metaViews \<Rightarrow> 'x cell heap \<Rightarrow> 'x hStatus \<Rightarrow> nat set" where
  "statusFoot V h x = viewFoot (ofTime V) h (hLastSyncTime x) \<union> (stringsFoot h (hSyncedNamespaces x) \<union>
     (failedFoot h (hFailedNamespaces x) \<union> conditionsFoot V h (hConditions x)))"

definition statusOk :: "('x, 'v) metaViews \<Rightarrow> 'x cell heap \<Rightarrow> 'x hStatus \<Rightarrow> bool" where
  "statusOk V h x \<longleftrightarrow> viewOk (ofTime V) h (hLastSyncTime x) \<and> stringsOk h (hSyncedNamespaces x) \<and>
     failedOk h (hFailedNamespaces x) \<and> conditionsOk V h (hConditions x)"

lemma status_copier:
  assumes "metaCopies L V"
  shows "deep_copier (DeepCopyIntoStatus L) (statusVal V) (statusFoot V) (statusOk V)"
proof -
  have time: "deep_copier (copyTime L) (viewVal (ofTime V)) (viewFoot (ofTime V)) (viewOk (ofTime V))"
    and cond: "deep_copier (copyCondition L) (viewVal (ofCondition V)) (viewFoot (ofCondition V)) (viewOk (ofCondition V))"
    using assms by (simp_all add: metaCopies_def copiesBy_def)
  have conds: "deep_copier (copyStructs ConditionArray asConditions (zeroCondition L) (copyCondition L))
      (conditionsVal V) (conditionsFoot V) (conditionsOk V)"
    unfolding conditionsVal_def conditionsFoot_def conditionsOk_def by (rule copyStructs_copier [OF cond]) simp
  show ?thesis
    by (rule copier_view [OF struct_copier [OF copyBoth_copier [OF time copyBoth_copier [OF copies_strings
          copyBoth_copier [OF failedMap.deep_copier_axioms conds]]],
        where copy = "DeepCopyIntoStatus L"
          and parts = "\<lambda>x. (hLastSyncTime x, hSyncedNamespaces x, hFailedNamespaces x, hConditions x)"
          and plain = hObservedGeneration
          and build = "\<lambda>(a, b, c, d) x. x\<lparr>hLastSyncTime := a, hSyncedNamespaces := b, hFailedNamespaces := c,
            hConditions := d\<rparr>"], where g = "\<lambda>(g, a, b, c, d). (a, b, c, d, g)"])
      (auto simp: DeepCopyIntoStatus_def copyBoth_def statusVal_def statusFoot_def statusOk_def split: prod.splits)
qed

definition syncVal where
  "syncVal V h x = (hTypeMeta x, viewVal (ofObjectMeta V) h (hObjectMeta x), specVal h (hSyncSpec x), statusVal V h (hSyncStatus x))"

definition syncFoot :: "('x, 'v) metaViews \<Rightarrow> 'x cell heap \<Rightarrow> 'x hSync \<Rightarrow> nat set" where
  "syncFoot V h x = viewFoot (ofObjectMeta V) h (hObjectMeta x) \<union> (specFoot h (hSyncSpec x) \<union> statusFoot V h (hSyncStatus x))"

definition syncOk :: "('x, 'v) metaViews \<Rightarrow> 'x cell heap \<Rightarrow> 'x hSync \<Rightarrow> bool" where
  "syncOk V h x \<longleftrightarrow> viewOk (ofObjectMeta V) h (hObjectMeta x) \<and> specOk h (hSyncSpec x) \<and> statusOk V h (hSyncStatus x)"

lemma sync_copier:
  assumes "metaCopies L V"
  shows "deep_copier (DeepCopyIntoSync L) (syncVal V) (syncFoot V) (syncOk V)"
proof -
  have meta: "deep_copier (copyObjectMeta L) (viewVal (ofObjectMeta V)) (viewFoot (ofObjectMeta V)) (viewOk (ofObjectMeta V))"
    using assms by (simp add: metaCopies_def copiesBy_def)
  show ?thesis
    by (rule copier_view [OF struct_copier [OF copyBoth_copier [OF meta copyBoth_copier [OF spec.deep_copier_axioms
          status_copier [OF assms]]],
        where copy = "DeepCopyIntoSync L" and parts = "\<lambda>x. (hObjectMeta x, hSyncSpec x, hSyncStatus x)" and plain = hTypeMeta
          and build = "\<lambda>(a, b, c) x. x\<lparr>hObjectMeta := a, hSyncSpec := b, hSyncStatus := c\<rparr>"], where g = "\<lambda>x. x"])
      (auto simp: DeepCopyIntoSync_def copyBoth_def syncVal_def syncFoot_def syncOk_def split: prod.splits)
qed

definition syncPtrVal where
  "syncPtrVal L V = pointerVal (asSync L) (syncVal V)"

definition syncPtrFoot :: "'x metav1 \<Rightarrow> ('x, 'v) metaViews \<Rightarrow> 'x cell heap \<Rightarrow> pointer \<Rightarrow> nat set" where
  "syncPtrFoot L V = pointerFoot (asSync L) (syncFoot V)"

definition syncPtrOk :: "'x metav1 \<Rightarrow> ('x, 'v) metaViews \<Rightarrow> 'x cell heap \<Rightarrow> pointer \<Rightarrow> bool" where
  "syncPtrOk L V = pointerOk SyncCell (asSync L) (syncOk V)"

lemma syncPtr_copier:
  assumes "metaCopies L V"
  shows "deep_copier (DeepCopySync L) (syncPtrVal L V) (syncPtrFoot L V) (syncPtrOk L V)"
  unfolding DeepCopySync_def syncPtrVal_def syncPtrFoot_def syncPtrOk_def
  by (rule pointer_copier [OF sync_copier [OF assms]]) simp

definition itemsVal where
  "itemsVal V = sliceVal asSyncs (syncVal V)"

definition itemsFoot :: "('x, 'v) metaViews \<Rightarrow> 'x cell heap \<Rightarrow> slice \<Rightarrow> nat set" where
  "itemsFoot V = sliceFoot asSyncs (syncFoot V)"

definition itemsOk :: "('x, 'v) metaViews \<Rightarrow> 'x cell heap \<Rightarrow> slice \<Rightarrow> bool" where
  "itemsOk V = sliceOk SyncArray asSyncs (syncOk V)"

definition syncListVal where
  "syncListVal V h x = (hListTypeMeta x, viewVal (ofListMeta V) h (hListMeta x), itemsVal V h (hItems x))"

definition syncListFoot :: "('x, 'v) metaViews \<Rightarrow> 'x cell heap \<Rightarrow> 'x hSyncList \<Rightarrow> nat set" where
  "syncListFoot V h x = viewFoot (ofListMeta V) h (hListMeta x) \<union> itemsFoot V h (hItems x)"

definition syncListOk :: "('x, 'v) metaViews \<Rightarrow> 'x cell heap \<Rightarrow> 'x hSyncList \<Rightarrow> bool" where
  "syncListOk V h x \<longleftrightarrow> viewOk (ofListMeta V) h (hListMeta x) \<and> itemsOk V h (hItems x)"

lemma syncList_copier:
  assumes "metaCopies L V"
  shows "deep_copier (DeepCopyIntoSyncList L) (syncListVal V) (syncListFoot V) (syncListOk V)"
proof -
  have meta: "deep_copier (copyListMeta L) (viewVal (ofListMeta V)) (viewFoot (ofListMeta V)) (viewOk (ofListMeta V))"
    using assms by (simp add: metaCopies_def copiesBy_def)
  have items: "deep_copier (copyStructs SyncArray asSyncs (zeroSync L) (DeepCopyIntoSync L)) (itemsVal V) (itemsFoot V) (itemsOk V)"
    unfolding itemsVal_def itemsFoot_def itemsOk_def by (rule copyStructs_copier [OF sync_copier [OF assms]]) simp
  show ?thesis
    by (rule copier_view [OF struct_copier [OF copyBoth_copier [OF meta items],
        where copy = "DeepCopyIntoSyncList L" and parts = "\<lambda>x. (hListMeta x, hItems x)" and plain = hListTypeMeta
          and build = "\<lambda>(a, b) x. x\<lparr>hListMeta := a, hItems := b\<rparr>"], where g = "\<lambda>x. x"])
      (auto simp: DeepCopyIntoSyncList_def copyBoth_def syncListVal_def syncListFoot_def syncListOk_def split: prod.splits)
qed

definition syncListPtrVal where
  "syncListPtrVal L V = pointerVal (asSyncList L) (syncListVal V)"

definition syncListPtrFoot :: "'x metav1 \<Rightarrow> ('x, 'v) metaViews \<Rightarrow> 'x cell heap \<Rightarrow> pointer \<Rightarrow> nat set" where
  "syncListPtrFoot L V = pointerFoot (asSyncList L) (syncListFoot V)"

definition syncListPtrOk :: "'x metav1 \<Rightarrow> ('x, 'v) metaViews \<Rightarrow> 'x cell heap \<Rightarrow> pointer \<Rightarrow> bool" where
  "syncListPtrOk L V = pointerOk ListCell (asSyncList L) (syncListOk V)"

lemma syncListPtr_copier:
  assumes "metaCopies L V"
  shows "deep_copier (DeepCopySyncList L) (syncListPtrVal L V) (syncListPtrFoot L V) (syncListPtrOk L V)"
  unfolding DeepCopySyncList_def syncListPtrVal_def syncListPtrFoot_def syncListPtrOk_def
  by (rule pointer_copier [OF syncList_copier [OF assms]]) simp

section \<open>Copies are independent\<close>

text \<open>
  \<open>independentCopy\<close>: the heap only grew, \<open>q\<close> means there what \<open>p\<close> meant, through cells of its own, and a
  write to any cell of one does not change what the other means.
\<close>

definition independentCopy ::
    "('x cell heap \<Rightarrow> pointer \<Rightarrow> 'v) \<Rightarrow> ('x cell heap \<Rightarrow> pointer \<Rightarrow> nat set) \<Rightarrow> pointer \<Rightarrow> 'x cell heap \<Rightarrow> pointer \<Rightarrow> 'x cell heap \<Rightarrow> bool" where
  "independentCopy v F p h q h' \<longleftrightarrow>
     (\<forall>a < lim h. mem h' a = mem h a) \<and> v h' q = v h p \<and> F h' p \<inter> F h' q = {} \<and>
     (\<forall>a c. (a \<in> F h' q \<longrightarrow> v (store a c h') p = v h p) \<and> (a \<in> F h' p \<longrightarrow> v (store a c h') q = v h p))"

lemma copier_independent:
  assumes "deep_copier copy v F ok" and "ok h p" and "copy p h = (q, h')"
  shows "independentCopy v F p h q h'"
  unfolding independentCopy_def
  using deep_copier.independent [OF assms] deep_copier.copies [OF assms] by (auto simp: extends_def agree_def)

text \<open>
  C36. A deep copy of a NamespaceSync is a copy, and deep. If the library's own deep copies (of the
  metadata, times and conditions) keep their contract, then \<open>DeepCopyObject\<close> of a nil pointer is a nil
  object, not an object that holds a nil pointer; and of a pointer to a well-formed NamespaceSync it is an
  object that means the same (nil slices and maps staying nil), lies in new cells only, and shares none:
  no write through one of the two can be seen through the other.
\<close>

theorem deepCopy_sync_independent:
  assumes "metaCopies L V" and "syncPtrOk L V h p"
  shows "case DeepCopyObjectSync L p h of (obj, h') \<Rightarrow>
    (case p of
       None \<Rightarrow> obj = None \<and> h' = h
     | Some a \<Rightarrow> (\<exists>b. obj = Some (SyncObject (Some b)) \<and>
         independentCopy (syncPtrVal L V) (syncPtrFoot L V) p h (Some b) h'))"
proof -
  obtain q h' where run: "DeepCopySync L p h = (q, h')" by (metis surj_pair)
  have "p = None \<Longrightarrow> q = None \<and> h' = h" "p \<noteq> None \<Longrightarrow> q \<noteq> None"
    using run by (auto simp: DeepCopySync_def copyPointer_def split: prod.splits option.splits)
  then show ?thesis
    using copier_independent [OF syncPtr_copier [OF assms(1)] assms(2) run] run
    by (cases p) (auto simp: DeepCopyObjectSync_def)
qed

text \<open>
  A heap with a NamespaceSync (cell 2) that targets two namespaces and has a failed one, and a list of it
  (cell 4); here the library's values are strings, without references.
\<close>

definition plainMeta :: "string metav1" where
  "plainMeta = \<lparr>copyObjectMeta = assignValue, copyListMeta = assignValue, copyTime = assignValue, copyCondition = assignValue,
     zeroObjectMeta = [], zeroListMeta = [], zeroTime = [], zeroCondition = []\<rparr>"

definition plainView :: "(string, string) view" where
  "plainView = \<lparr>viewVal = (\<lambda>h x. x), viewFoot = (\<lambda>h x. {}), viewOk = (\<lambda>h x. True)\<rparr>"

definition plainViews :: "(string, string) metaViews" where
  "plainViews = \<lparr>ofObjectMeta = plainView, ofListMeta = plainView, ofTime = plainView, ofCondition = plainView\<rparr>"

lemma plain_copies: "metaCopies plainMeta plainViews"
  using plain.deep_copier_axioms
  by (simp add: metaCopies_def copiesBy_def plainMeta_def plainViews_def plainView_def)

definition heapSync :: "string hSync" where
  "heapSync = \<lparr>hTypeMeta = (''NamespaceSync'', ''v1''), hObjectMeta = ''a'',
     hSyncSpec = zeroSpec\<lparr>hTargetNamespaces := Some (0, 0, 2)\<rparr>,
     hSyncStatus = (zeroStatus plainMeta)\<lparr>hFailedNamespaces := Some 1\<rparr>\<rparr>"

definition sampleHeap :: "string cell heap" where
  "sampleHeap = \<lparr>mem = [0 \<mapsto> StringArray [''x'', ''y''], 1 \<mapsto> StringMap (fmupd ''x'' ''conflict'' fmempty),
     2 \<mapsto> SyncCell heapSync, 3 \<mapsto> SyncArray [heapSync],
     4 \<mapsto> ListCell \<lparr>hListTypeMeta = ([], []), hListMeta = [], hItems = Some (3, 0, 1)\<rparr>], lim = 5\<rparr>"

lemmas heap_ok_defs = pointerOk_def sliceOk_def sliceElems_def stringsOk_def filterPtrOk_def filtersPtrOk_def
  failedOk_def conditionsOk_def itemsOk_def specOk_def statusOk_def syncOk_def syncPtrOk_def syncListOk_def syncListPtrOk_def

lemma sampleHeap_ok: "syncPtrOk plainMeta plainViews sampleHeap (Some 2)" "syncListPtrOk plainMeta plainViews sampleHeap (Some 4)"
  by (simp_all add: heap_ok_defs sampleHeap_def heapSync_def zeroSpec_def zeroStatus_def plainViews_def plainView_def)

theorem deepCopy_sync_independent_witness:
  "\<exists>b h'. DeepCopyObjectSync plainMeta (Some 2) sampleHeap = (Some (SyncObject (Some b)), h') \<and>
     (\<forall>c. syncPtrVal plainMeta plainViews (store b c h') (Some 2) = syncPtrVal plainMeta plainViews sampleHeap (Some 2))"
proof -
  from deepCopy_sync_independent [OF plain_copies sampleHeap_ok(1)] obtain b h'
    where "DeepCopyObjectSync plainMeta (Some 2) sampleHeap = (Some (SyncObject (Some b)), h')"
      "independentCopy (syncPtrVal plainMeta plainViews) (syncPtrFoot plainMeta plainViews) (Some 2) sampleHeap (Some b) h'"
    by (auto split: prod.splits)
  then show ?thesis by (auto simp: independentCopy_def syncPtrFoot_def pointerFoot_def)
qed

text \<open>
  C37. The same of a list of NamespaceSyncs, all the way down: the copied list shares no cell with its
  original, nor does any item, spec, filter or condition in it.
\<close>

theorem deepCopy_list_independent:
  assumes "metaCopies L V" and "syncListPtrOk L V h p"
  shows "case DeepCopyObjectSyncList L p h of (obj, h') \<Rightarrow>
    (case p of
       None \<Rightarrow> obj = None \<and> h' = h
     | Some a \<Rightarrow> (\<exists>b. obj = Some (SyncListObject (Some b)) \<and>
         independentCopy (syncListPtrVal L V) (syncListPtrFoot L V) p h (Some b) h'))"
proof -
  obtain q h' where run: "DeepCopySyncList L p h = (q, h')" by (metis surj_pair)
  have "p = None \<Longrightarrow> q = None \<and> h' = h" "p \<noteq> None \<Longrightarrow> q \<noteq> None"
    using run by (auto simp: DeepCopySyncList_def copyPointer_def split: prod.splits option.splits)
  then show ?thesis
    using copier_independent [OF syncListPtr_copier [OF assms(1)] assms(2) run] run
    by (cases p) (auto simp: DeepCopyObjectSyncList_def)
qed

theorem deepCopy_list_independent_witness:
  "\<exists>b h'. DeepCopyObjectSyncList plainMeta (Some 4) sampleHeap = (Some (SyncListObject (Some b)), h') \<and>
     syncListPtrVal plainMeta plainViews h' (Some b) = syncListPtrVal plainMeta plainViews sampleHeap (Some 4)"
proof -
  from deepCopy_list_independent [OF plain_copies sampleHeap_ok(2)] obtain b h'
    where "DeepCopyObjectSyncList plainMeta (Some 4) sampleHeap = (Some (SyncListObject (Some b)), h')"
      "independentCopy (syncListPtrVal plainMeta plainViews) (syncListPtrFoot plainMeta plainViews) (Some 4) sampleHeap (Some b) h'"
    by (auto split: prod.splits)
  then show ?thesis by (auto simp: independentCopy_def)
qed

end
