(* ===== verification/Duration.thy ===== *)
theory Duration
  imports GoLib
begin

text \<open>
  \<open>time.ParseDuration\<close> of Go's standard library, which reads the environment variable that sets the
  reconcile interval. Unsigned 64-bit arithmetic is written out with \<open>mod 2 ^ 64\<close>; fractions go through
  \<open>float64\<close>, rounded to 53 bits, halves to even.
\<close>

section \<open>Floating point\<close>

fun bitLength :: "nat \<Rightarrow> nat" where
  "bitLength n = (if n = 0 then 0 else Suc (bitLength (n div 2)))"

declare bitLength.simps [simp del]

text \<open>The \<open>float64\<close> nearest to \<open>p / q\<close>, as a fraction whose denominator is a power of two.\<close>

definition halfEven :: "nat \<Rightarrow> nat \<Rightarrow> nat" where
  "halfEven n d = (let m = n div d; r = n mod d in if 2 * r > d \<or> (2 * r = d \<and> odd m) then m + 1 else m)"

definition roundRatio :: "nat \<Rightarrow> nat \<Rightarrow> nat \<times> nat" where
  "roundRatio p q =
     (if p = 0 then (0, 1)
      else
        (let s = 53 - int (bitLength p) + int (bitLength q);
             s = (if p * 2 ^ nat s div (q * 2 ^ nat (- s)) \<ge> 2 ^ 53 then s - 1 else s);
             m = halfEven (p * 2 ^ nat s) (q * 2 ^ nat (- s))
         in (m * 2 ^ nat (- s), 2 ^ nat s)))"

text \<open>\<open>uint64(float64(f) * (float64(unit) / scale))\<close>\<close>

definition fracNanos :: "nat \<Rightarrow> nat \<Rightarrow> nat \<Rightarrow> nat" where
  "fracNanos f unit scale =
     (let (a, b) = roundRatio f 1; (c, d) = roundRatio unit scale; (m, e) = roundRatio (a * c) (b * d)
      in m div e mod 2 ^ 64)"

text \<open>\<open>scale *= 10\<close>; a scale is at least 1, so its rounding is a whole number.\<close>

definition tenTimes :: "nat \<Rightarrow> nat" where
  "tenTimes scale = (case roundRatio (10 * scale) 1 of (a, b) \<Rightarrow> a div b)"

section \<open>Numbers\<close>

definition isDigit :: "char \<Rightarrow> bool" where
  "isDigit c \<longleftrightarrow> 48 \<le> (of_char c :: nat) \<and> (of_char c :: nat) \<le> 57"

definition digitVal :: "char \<Rightarrow> nat" where
  "digitVal c = of_char c - 48"

fun leadingInt :: "nat \<Rightarrow> string \<Rightarrow> (nat \<times> string) option" where
  "leadingInt x [] = Some (x, [])"
| "leadingInt x (c # s) =
     (if \<not> isDigit c then Some (x, c # s)
      else if x > 2 ^ 63 div 10 then None
      else (let x = (x * 10 + digitVal c) mod 2 ^ 64 in
            if x > 2 ^ 63 then None else leadingInt x s))"

fun leadingFraction :: "nat \<Rightarrow> nat \<Rightarrow> bool \<Rightarrow> string \<Rightarrow> nat \<times> nat \<times> string" where
  "leadingFraction x scale overflow [] = (x, scale, [])"
| "leadingFraction x scale overflow (c # s) =
     (if \<not> isDigit c then (x, scale, c # s)
      else if overflow then leadingFraction x scale True s
      else if x > (2 ^ 63 - 1) div 10 then leadingFraction x scale True s
      else (let y = (x * 10 + digitVal c) mod 2 ^ 64 in
            if y > 2 ^ 63 then leadingFraction x scale True s
            else leadingFraction y (tenTimes scale) False s))"

text \<open>\<open>unitMap\<close>, in nanoseconds; the two other spellings of the microsecond are a micro sign and a Greek mu.\<close>

definition unitMap :: "string \<Rightarrow> nat option" where
  "unitMap u =
     (if u = ''ns'' then Some 1
      else if u = ''us'' \<or> u = [CHR 0xC2, CHR 0xB5, CHR ''s''] \<or> u = [CHR 0xCE, CHR 0xBC, CHR ''s''] then Some 1000
      else if u = ''ms'' then Some 1000000
      else if u = ''s'' then Some 1000000000
      else if u = ''m'' then Some 60000000000
      else if u = ''h'' then Some 3600000000000
      else None)"

section \<open>Durations\<close>

text \<open>A body of the loop: one number with its unit, and what is left of the string.\<close>

definition unitChar :: "char \<Rightarrow> bool" where
  "unitChar c \<longleftrightarrow> c \<noteq> CHR ''.'' \<and> \<not> isDigit c"

definition withUnit :: "nat \<Rightarrow> nat \<Rightarrow> nat \<Rightarrow> string \<Rightarrow> (nat \<times> string) option" where
  "withUnit v f scale s =
     (let u = takeWhile unitChar s; s = dropWhile unitChar s in
      if u = [] then None
      else case unitMap u of
        None \<Rightarrow> None
      | Some unit \<Rightarrow>
          (if v > 2 ^ 63 div unit then None
           else (let v = v * unit mod 2 ^ 64 in
                 if f > 0
                 then (let v = (v + fracNanos f unit scale) mod 2 ^ 64 in
                       if v > 2 ^ 63 then None else Some (v, s))
                 else Some (v, s))))"

definition parseComponent :: "string \<Rightarrow> (nat \<times> string) option" where
  "parseComponent s =
     (if \<not> (hd s = CHR ''.'' \<or> isDigit (hd s)) then None
      else case leadingInt 0 s of
        None \<Rightarrow> None
      | Some (v, t) \<Rightarrow>
          (let pre = (length s \<noteq> length t) in
           if t \<noteq> [] \<and> hd t = CHR ''.''
           then (let (f, scale, r) = leadingFraction 0 1 False (tl t);
                     post = (length (tl t) \<noteq> length r)
                 in if \<not> pre \<and> \<not> post then None else withUnit v f scale r)
           else if \<not> pre then None else withUnit v 0 1 t))"

lemma leadingInt_shrinks: "leadingInt x s = Some (y, t) \<Longrightarrow> length t \<le> length s"
  by (induction x s arbitrary: y rule: leadingInt.induct) (auto simp: Let_def intro: le_SucI split: if_splits)

lemma leadingFraction_shrinks: "leadingFraction x scale ov s = (y, scale', t) \<Longrightarrow> length t \<le> length s"
  by (induction x scale ov s rule: leadingFraction.induct) (auto simp: Let_def split: if_splits)

lemma withUnit_shrinks: "withUnit v f scale s = Some (w, t) \<Longrightarrow> length t < length s"
proof -
  assume "withUnit v f scale s = Some (w, t)"
  then have "takeWhile unitChar s \<noteq> []" "t = dropWhile unitChar s"
    by (auto simp: withUnit_def Let_def split: if_splits option.splits)
  moreover have "length (takeWhile unitChar s) + length (dropWhile unitChar s) = length s"
    by (metis length_append takeWhile_dropWhile_id)
  ultimately show ?thesis by (cases "takeWhile unitChar s") auto
qed

lemma parseComponent_shrinks: "parseComponent s = Some (v, t) \<Longrightarrow> length t < length s"
  by (fastforce simp: parseComponent_def Let_def split: if_splits option.splits prod.splits
      dest: withUnit_shrinks leadingInt_shrinks leadingFraction_shrinks)

function durationLoop :: "nat \<Rightarrow> string \<Rightarrow> nat option" where
  "durationLoop d s =
     (if s = [] then Some d
      else case parseComponent s of
        None \<Rightarrow> None
      | Some (v, s') \<Rightarrow>
          (let d = (d + v) mod 2 ^ 64 in if d > 2 ^ 63 then None else durationLoop d s'))"
  by pat_completeness auto
termination
  by (relation "measure (\<lambda>(d, s). length s)") (auto dest: parseComponent_shrinks)

declare durationLoop.simps [simp del]

definition parseUnsigned :: "bool \<Rightarrow> string \<Rightarrow> int option" where
  "parseUnsigned neg s =
     (if s = ''0'' then Some 0
      else if s = [] then None
      else case durationLoop 0 s of
        None \<Rightarrow> None
      | Some d \<Rightarrow>
          (if neg then Some (- int d)
           else if d > 2 ^ 63 - 1 then None
           else Some (int d)))"

text \<open>The error, \<open>None\<close> here, says no more than what was wrong.\<close>

definition parseDuration :: "string \<Rightarrow> int option" where
  "parseDuration s =
     (if s \<noteq> [] \<and> (hd s = CHR ''-'' \<or> hd s = CHR ''+'') then parseUnsigned (hd s = CHR ''-'') (tl s)
      else parseUnsigned False s)"

section \<open>What it accepts\<close>

lemma parseDuration_bounds:
  assumes "parseDuration s = Some d"
  shows "- (2 ^ 63) \<le> d \<and> d < 2 ^ 63"
proof -
  have "e \<le> 2 ^ 63" if "durationLoop d s = Some e" and "d \<le> 2 ^ 63" for d s e
    using that
  proof (induction d s rule: durationLoop.induct)
    case (1 d s)
    show ?case
    proof (cases "s = [] \<or> parseComponent s = None")
      case True
      with 1 show ?thesis by (subst (asm) durationLoop.simps) (auto split: if_splits)
    next
      case False
      then obtain v s' where c: "s \<noteq> []" "parseComponent s = Some (v, s')" by auto
      let ?d = "(d + v) mod 2 ^ 64"
      have run: "(if ?d > 2 ^ 63 then None else durationLoop ?d s') = Some e"
        using 1(2) c by (subst (asm) durationLoop.simps) (simp add: Let_def split: if_splits)
      have "?d \<le> 2 ^ 63" "durationLoop ?d s' = Some e" using run by (auto split: if_splits)
      then show ?thesis using "1.IH" [OF c(1,2) refl, of ?d] by simp
    qed
  qed
  from this [of 0] assms show ?thesis
    by (auto simp: parseDuration_def parseUnsigned_def split: if_splits option.splits)
qed

section \<open>Spelled durations\<close>

text \<open>A list of whole numbers with units, as one writes \<^verbatim>\<open>1h30m\<close>: how it is spelled and what it says.\<close>

definition spell :: "(nat \<times> string) list \<Rightarrow> string" where
  "spell ps = concat (map (\<lambda>(n, u). digits n @ u) ps)"

definition nanoseconds :: "(nat \<times> string) list \<Rightarrow> nat" where
  "nanoseconds ps = sum_list (map (\<lambda>(n, u). n * (case unitMap u of None \<Rightarrow> 0 | Some k \<Rightarrow> k)) ps)"

definition knownUnits :: "(nat \<times> string) list \<Rightarrow> bool" where
  "knownUnits ps \<longleftrightarrow> list_all (\<lambda>(n, u). unitMap u \<noteq> None) ps"

lemma digit_char: "n < 10 \<Longrightarrow> isDigit (char_of (48 + n)) \<and> digitVal (char_of (48 + n)) = n"
  by (simp add: isDigit_def digitVal_def)

lemma digits_isDigit: "list_all isDigit (digits n)"
proof (induction n rule: digits.induct)
  case (1 n)
  then show ?case by (subst digits.simps) (auto simp: digit_char)
qed

lemma leadingInt_append:
  "list_all isDigit xs \<Longrightarrow> leadingInt x (xs @ ys) = (case leadingInt x xs of None \<Rightarrow> None | Some (y, _) \<Rightarrow> leadingInt y ys)"
  by (induction xs arbitrary: x) (auto simp: Let_def)

lemma leadingInt_digits: "n \<le> 2 ^ 63 \<Longrightarrow> leadingInt 0 (digits n) = Some (n, [])"
proof (induction n rule: digits.induct)
  case (1 n)
  show ?case
  proof (cases "n < 10")
    case True
    then show ?thesis using digit_char [OF True] by (subst digits.simps) simp
  next
    case False
    have m: "n mod 10 < 10" by simp
    have le: "n div 10 \<le> 2 ^ 63 div 10" using 1(2) by (rule div_le_mono)
    have "leadingInt 0 (digits (n div 10)) = Some (n div 10, [])" using 1 False le by simp
    moreover have "digits n = digits (n div 10) @ [char_of (48 + n mod 10)]"
      using False by (subst digits.simps) simp
    moreover have "(n div 10 * 10 + n mod 10) mod 2 ^ 64 = n" using 1(2) by simp
    ultimately show ?thesis
      using digit_char [OF m] le 1(2) by (simp add: leadingInt_append digits_isDigit Let_def)
  qed
qed

lemma unit_chars:
  assumes "unitMap u = Some k"
  shows "u \<noteq> []" and "list_all unitChar u" and "0 < k"
  using assms by (auto simp: unitMap_def unitChar_def isDigit_def split: if_splits)

lemma digits_split: "digits n = c # s \<Longrightarrow> isDigit c"
  using digits_isDigit [of n] by simp

lemma spell_head: "spell ps = c # s \<Longrightarrow> isDigit c"
proof (induction ps)
  case (Cons p ps)
  then show ?case by (cases p; cases "digits (fst p)") (auto simp: spell_def dest: digits_split)
qed (simp add: spell_def)

lemma digit_not_unit: "isDigit c \<Longrightarrow> \<not> unitChar c"
  by (simp add: unitChar_def)

lemma units_split:
  assumes "list_all unitChar u"
  shows "takeWhile unitChar (u @ spell ps) = u \<and> dropWhile unitChar (u @ spell ps) = spell ps"
proof -
  have "takeWhile unitChar (spell ps) = [] \<and> dropWhile unitChar (spell ps) = spell ps"
    by (cases "spell ps") (auto dest: spell_head digit_not_unit)
  with assms show ?thesis by (simp add: list_all_iff takeWhile_append2 dropWhile_append2)
qed

lemma parseComponent_spell:
  assumes "unitMap u = Some k" and "n * k \<le> 2 ^ 63"
  shows "parseComponent (digits n @ u @ spell ps) = Some (n * k, spell ps)"
proof -
  note u = unit_chars [OF assms(1)]
  have "n \<le> n * k" using u(3) by (cases k) simp_all
  then have n: "n \<le> 2 ^ 63" using assms(2) by (rule order_trans)
  obtain c v where cv: "u = c # v" "unitChar c" using u by (cases u) auto
  then have "leadingInt n (u @ spell ps) = Some (n, u @ spell ps)" by (simp add: unitChar_def)
  then have int: "leadingInt 0 (digits n @ u @ spell ps) = Some (n, u @ spell ps)"
    using leadingInt_digits [OF n] by (simp add: leadingInt_append digits_isDigit)
  have hd: "isDigit (hd (digits n @ u @ spell ps))"
    using digits_isDigit [of n] by (cases "digits n") simp_all
  have "n \<le> 2 ^ 63 div k" using assms(2) u(3) by (simp add: less_eq_div_iff_mult_less_eq)
  then have "withUnit n 0 1 (u @ spell ps) = Some (n * k, spell ps)"
    using assms units_split [OF u(2)] u(1) by (simp add: withUnit_def Let_def)
  moreover have "hd (u @ spell ps) \<noteq> CHR ''.''" using cv by (simp add: unitChar_def)
  ultimately show ?thesis using int hd by (simp add: parseComponent_def Let_def)
qed

lemma durationLoop_spell:
  "knownUnits ps \<Longrightarrow> d + nanoseconds ps \<le> 2 ^ 63 \<Longrightarrow> durationLoop d (spell ps) = Some (d + nanoseconds ps)"
proof (induction ps arbitrary: d)
  case Nil
  then show ?case by (subst durationLoop.simps) (simp add: spell_def nanoseconds_def)
next
  case (Cons p ps)
  obtain n u where p: "p = (n, u)" by (cases p)
  obtain k where k: "unitMap u = Some k" using Cons.prems p by (auto simp: knownUnits_def)
  have sum: "nanoseconds (p # ps) = n * k + nanoseconds ps" by (simp add: nanoseconds_def p k)
  have spell: "spell (p # ps) = digits n @ u @ spell ps" by (simp add: spell_def p)
  have small: "(d + n * k) mod 2 ^ 64 = d + n * k" using Cons.prems(2) sum by simp
  have "parseComponent (spell (p # ps)) = Some (n * k, spell ps)"
    unfolding spell using Cons.prems(2) sum by (intro parseComponent_spell [OF k]) simp
  moreover have "durationLoop (d + n * k) (spell ps) = Some (d + n * k + nanoseconds ps)"
    using Cons.prems sum by (intro Cons.IH) (simp_all add: knownUnits_def)
  moreover have "spell (p # ps) \<noteq> []" by (simp add: spell)
  ultimately show ?case
    using Cons.prems(2) sum small by (subst durationLoop.simps) (simp add: Let_def)
qed

lemma spell_nonempty:
  assumes "ps \<noteq> []" and "knownUnits ps"
  obtains c s where "spell ps = c # s" and "isDigit c" and "s \<noteq> []"
proof -
  obtain n u qs where ps: "ps = (n, u) # qs" using assms(1) by (metis neq_Nil_conv surj_pair)
  then obtain k where "unitMap u = Some k" using assms(2) by (auto simp: knownUnits_def)
  then have "u \<noteq> []" by (rule unit_chars)
  moreover obtain c t where "digits n = c # t" by (cases "digits n") auto
  moreover have "spell ps = digits n @ u @ spell qs" by (simp add: spell_def ps)
  ultimately show thesis using digits_split [of n c t] by (intro that [of c "t @ u @ spell qs"]) simp_all
qed

lemma parseDuration_spell:
  assumes "ps \<noteq> []" and "knownUnits ps" and "nanoseconds ps < 2 ^ 63"
  shows "parseDuration (spell ps) = Some (int (nanoseconds ps))"
    and "parseDuration (CHR ''-'' # spell ps) = Some (- int (nanoseconds ps))"
proof -
  obtain c s where c: "spell ps = c # s" "isDigit c" "s \<noteq> []" by (rule spell_nonempty [OF assms(1,2)])
  have "durationLoop 0 (spell ps) = Some (nanoseconds ps)"
    using durationLoop_spell [OF assms(2), of 0] assms(3) by simp
  then have u: "parseUnsigned neg (spell ps) = Some (if neg then - int (nanoseconds ps) else int (nanoseconds ps))" for neg
    using c assms(3) by (simp add: parseUnsigned_def)
  have "c \<noteq> CHR ''-''" "c \<noteq> CHR ''+''" using c(2) by (auto simp: isDigit_def)
  then show "parseDuration (spell ps) = Some (int (nanoseconds ps))" using u c(1) by (simp add: parseDuration_def)
  show "parseDuration (CHR ''-'' # spell ps) = Some (- int (nanoseconds ps))" using u by (simp add: parseDuration_def)
qed

end
