(* ===== verification/Manager.thy ===== *)
theory Manager
  imports "HOL-Library.Sublist" Duration EventMap
begin

text \<open>
  \<^verbatim>\<open>cmd/main.go\<close> and \<open>SetupWithManager\<close>: from the command line and the environment to a running manager.
  The Kubernetes libraries' side is the record \<open>boot\<close>; what \<open>main\<close> asks of them, in order, is the
  history \<open>bootStep list\<close>.
\<close>

section \<open>The command line\<close>

record options =
  metricsAddr :: string
  probeAddr :: string
  enableLeaderElection :: bool
  secureMetrics :: bool
  enableHTTP2 :: bool

definition defaultOptions :: options where
  "defaultOptions = \<lparr>metricsAddr = '':8443'', probeAddr = '':8081'', enableLeaderElection = False,
     secureMetrics = True, enableHTTP2 = False\<rparr>"

text \<open>\<open>strconv.ParseBool\<close>\<close>

definition parseBool :: "string \<Rightarrow> bool option" where
  "parseBool s =
     (if s \<in> {''1'', ''t'', ''T'', ''true'', ''TRUE'', ''True''} then Some True
      else if s \<in> {''0'', ''f'', ''F'', ''false'', ''FALSE'', ''False''} then Some False
      else None)"

text \<open>
  The flags \<open>main\<close> defines. Other flags are defined by libraries (\<open>opts.BindFlags\<close>, and packages at
  their import); \<open>lib\<close> says of a name whether it is one, a boolean one, and how it is set, in a state of
  type \<open>'z\<close> which starts as \<open>zapOptions()\<close>.
\<close>

type_synonym 'z libFlags = "string \<Rightarrow> (bool \<times> (string \<Rightarrow> 'z \<Rightarrow> 'z option)) option"

definition setOption :: "string \<Rightarrow> string \<Rightarrow> options \<Rightarrow> options option" where
  "setOption name v opt =
     (if name = ''metrics-bind-address'' then Some (opt\<lparr>metricsAddr := v\<rparr>)
      else if name = ''health-probe-bind-address'' then Some (opt\<lparr>probeAddr := v\<rparr>)
      else if name = ''leader-elect'' then map_option (\<lambda>b. opt\<lparr>enableLeaderElection := b\<rparr>) (parseBool v)
      else if name = ''metrics-secure'' then map_option (\<lambda>b. opt\<lparr>secureMetrics := b\<rparr>) (parseBool v)
      else if name = ''enable-http2'' then map_option (\<lambda>b. opt\<lparr>enableHTTP2 := b\<rparr>) (parseBool v)
      else None)"

definition stringFlags :: "string list" where
  "stringFlags = [''metrics-bind-address'', ''health-probe-bind-address'']"

definition boolFlags :: "string list" where
  "boolFlags = [''leader-elect'', ''metrics-secure'', ''enable-http2'']"

text \<open>Whether a flag exists and takes its value from a boolean, and setting it.\<close>

definition flagKind :: "'z libFlags \<Rightarrow> string \<Rightarrow> bool option" where
  "flagKind lib name =
     (if name \<in> set stringFlags then Some False
      else if name \<in> set boolFlags then Some True
      else map_option fst (lib name))"

definition setFlag :: "'z libFlags \<Rightarrow> string \<Rightarrow> string \<Rightarrow> options \<times> 'z \<Rightarrow> (options \<times> 'z) option" where
  "setFlag lib name v st =
     (if name \<in> set stringFlags \<or> name \<in> set boolFlags
      then map_option (\<lambda>opt. (opt, snd st)) (setOption name v (fst st))
      else case lib name of
        None \<Rightarrow> None
      | Some (b, assign) \<Rightarrow> map_option (Pair (fst st)) (assign v (snd st)))"

text \<open>
  \<open>flag.Parse\<close>, one argument at a time. The left results are the codes the process exits with: 0 after
  printing the usage, 2 after an error. Parsing stops at the first argument that is not a flag.
\<close>

definition flagName :: "string \<Rightarrow> string" where
  "flagName s = (if take 2 s = ''--'' then drop 2 s else drop 1 s)"

definition splitValue :: "string \<Rightarrow> string \<times> string option" where
  "splitValue name =
     (let key = hd name # takeWhile (\<lambda>c. c \<noteq> CHR ''='') (tl name);
          rest = dropWhile (\<lambda>c. c \<noteq> CHR ''='') (tl name)
      in (key, if rest = [] then None else Some (tl rest)))"

fun flagParse :: "'z libFlags \<Rightarrow> string list \<Rightarrow> options \<times> 'z \<Rightarrow> nat + options \<times> 'z" where
  "flagParse lib [] st = Inr st"
| "flagParse lib (s # args) st =
     (if length s < 2 \<or> hd s \<noteq> CHR ''-'' then Inr st
      else if s = ''--'' then Inr st
      else
        (let name = flagName s in
         if name = [] \<or> hd name = CHR ''-'' \<or> hd name = CHR ''='' then Inl 2
         else
           (let (name, value) = splitValue name in
            case flagKind lib name of
              None \<Rightarrow> if name = ''help'' \<or> name = ''h'' then Inl 0 else Inl 2
            | Some True \<Rightarrow>
                (case setFlag lib name (case value of Some v \<Rightarrow> v | None \<Rightarrow> ''true'') st of
                   None \<Rightarrow> Inl 2
                 | Some st \<Rightarrow> flagParse lib args st)
            | Some False \<Rightarrow>
                (case value of
                   Some v \<Rightarrow>
                     (case setFlag lib name v st of None \<Rightarrow> Inl 2 | Some st \<Rightarrow> flagParse lib args st)
                 | None \<Rightarrow>
                     (case args of
                        [] \<Rightarrow> Inl 2
                      | v # args \<Rightarrow>
                          (case setFlag lib name v st of None \<Rightarrow> Inl 2 | Some st \<Rightarrow> flagParse lib args st))))))"

section \<open>Options of the servers and the manager\<close>

text \<open>\<open>tls.Config\<close>, of which only the protocols are touched.\<close>

record tlsConfig =
  NextProtos :: "string list"

definition disableHTTP2 :: "tlsConfig \<Rightarrow> tlsConfig" where
  "disableHTTP2 c = c\<lparr>NextProtos := [''http/1.1'']\<rparr>"

datatype filterProvider = WithAuthenticationAndAuthorization

record metricsOptions =
  BindAddress :: string
  SecureServing :: bool
  metricsTLSOpts :: "(tlsConfig \<Rightarrow> tlsConfig) list"
  FilterProvider :: "filterProvider option"

record managerOptions =
  Metrics :: metricsOptions
  webhookTLSOpts :: "(tlsConfig \<Rightarrow> tlsConfig) list"
  HealthProbeBindAddress :: string
  LeaderElection :: bool
  LeaderElectionID :: string
  LeaderElectionNamespace :: string
  LeaderElectionReleaseOnCancel :: bool

definition managerOptionsFor :: "options \<Rightarrow> managerOptions" where
  "managerOptionsFor opt =
     (let tlsOpts = (if \<not> enableHTTP2 opt then [] @ [disableHTTP2] else []);
          webhook = tlsOpts;
          metrics = \<lparr>BindAddress = metricsAddr opt, SecureServing = secureMetrics opt, metricsTLSOpts = tlsOpts,
            FilterProvider = None\<rparr>;
          metrics = (if secureMetrics opt then metrics\<lparr>FilterProvider := Some WithAuthenticationAndAuthorization\<rparr> else metrics)
      in \<lparr>Metrics = metrics, webhookTLSOpts = webhook, HealthProbeBindAddress = probeAddr opt,
          LeaderElection = enableLeaderElection opt, LeaderElectionID = ''47c2149c.nsync.dev'',
          LeaderElectionNamespace = ''k8s-namespace-sync-system'', LeaderElectionReleaseOnCancel = True\<rparr>)"

text \<open>The reconcile interval, in nanoseconds, from the environment variable \<open>RECONCILE_INTERVAL\<close> (empty when unset).\<close>

definition intervalFrom :: "string \<Rightarrow> int" where
  "intervalFrom interval =
     (if interval \<noteq> [] then
        (case parseDuration interval of
           None \<Rightarrow> ReconcileInterval
         | Some d \<Rightarrow> d)
      else ReconcileInterval)"

section \<open>The logger\<close>

text \<open>
  \<open>zapOptions\<close>: the fields the flags overwrite hold defaults; the encoder, and the time encoder within
  the encoder configuration, are left to the flags. Library constants are named by strings.
\<close>

record encoderConfig =
  TimeKey :: string
  LevelKey :: string
  NameKey :: string
  CallerKey :: string
  FunctionKey :: string
  MessageKey :: string
  StacktraceKey :: string
  EncodeTime :: string
  EncodeLevel :: string
  EncodeDuration :: string
  EncodeCaller :: string

record zapOptions =
  Development :: bool
  Encoder :: "string option"
  Level :: string
  StacktraceLevel :: string
  TimeEncoder :: string
  EncoderConfigOptions :: "(encoderConfig \<Rightarrow> encoderConfig) list"

definition encoderNames :: "encoderConfig \<Rightarrow> encoderConfig" where
  "encoderNames ec = ec\<lparr>TimeKey := ''ts'', LevelKey := ''level'', NameKey := ''logger'', CallerKey := ''caller'',
     FunctionKey := [], MessageKey := ''msg'', StacktraceKey := ''stacktrace'',
     EncodeLevel := ''LowercaseLevelEncoder'', EncodeDuration := ''StringDurationEncoder'',
     EncodeCaller := ''ShortCallerEncoder''\<rparr>"

definition zapOptions :: zapOptions where
  "zapOptions = \<lparr>Development = True, Encoder = None, Level = ''DebugLevel'', StacktraceLevel = ''ErrorLevel'',
     TimeEncoder = ''ISO8601TimeEncoder'', EncoderConfigOptions = [encoderNames]\<rparr>"

section \<open>The controller\<close>

text \<open>
  What \<open>SetupWithManager\<close> builds and completes: the type it reconciles, with its predicate; the event
  filter of every watch, which lets all events pass; and for each watched type the requests of an event.
\<close>

datatype watched = WatchedSync namespaceSync | WatchedNamespace string | WatchedObject obj

record 'w controllerSetup =
  forEvents :: "namespaceSync watchEvent \<Rightarrow> bool"
  eventFilter :: "watched watchEvent \<Rightarrow> bool"
  watchNamespace :: "string \<Rightarrow> 'w st \<Rightarrow> key list \<times> 'w st"
  watchSecret :: "secret \<Rightarrow> 'w st \<Rightarrow> key list \<times> 'w st"
  watchConfigMap :: "configMap \<Rightarrow> 'w st \<Rightarrow> key list \<times> 'w st"
  reconciler :: "key \<Rightarrow> 'w st \<Rightarrow> (int \<times> goerr option) \<times> 'w st"

fun funcsFilter :: "watched watchEvent \<Rightarrow> bool" where
  "funcsFilter (CreateEvent x) = True"
| "funcsFilter (UpdateEvent x y) = True"
| "funcsFilter (DeleteEvent x) = True"
| "funcsFilter (GenericEvent x) = True"

text \<open>The library's side of the start-up.\<close>

record 'w boot =
  configOK :: bool
  generationChanged :: "namespaceSync watchEvent \<Rightarrow> bool"
  annotationChanged :: "namespaceSync watchEvent \<Rightarrow> bool"
  newManager :: "managerOptions \<Rightarrow> 'w \<Rightarrow> goerr option \<times> 'w"
  managerClient :: "managerOptions \<Rightarrow> 'w env"
  managerReader :: "kind \<Rightarrow> key \<Rightarrow> 'w \<Rightarrow> (goerr + obj) \<times> 'w"
  completeController :: "'w controllerSetup \<Rightarrow> 'w \<Rightarrow> goerr option \<times> 'w"
  addHealthzCheck :: "'w \<Rightarrow> goerr option \<times> 'w"
  addReadyzCheck :: "'w \<Rightarrow> goerr option \<times> 'w"
  managerStart :: "'w \<Rightarrow> goerr option \<times> 'w"

definition SetupWithManager :: "'w boot \<Rightarrow> 'w env \<Rightarrow> int \<Rightarrow> 'w controllerSetup" where
  "SetupWithManager B r interval =
     \<lparr>forEvents = namespaceSyncPredicate (generationChanged B) (annotationChanged B),
      eventFilter = funcsFilter,
      watchNamespace = findNamespaceSyncs r,
      watchSecret = findNamespaceSyncsForSecret r,
      watchConfigMap = findNamespaceSyncsForConfigMap r,
      reconciler = Reconcile r interval\<rparr>"

text \<open>The reconciler \<open>main\<close> constructs: the manager's client, its uncached reader, and a recorder.\<close>

definition newReconciler :: "'w boot \<Rightarrow> managerOptions \<Rightarrow> 'w env" where
  "newReconciler B mo = (managerClient B mo)\<lparr>apiReader := Some (managerReader B), hasRecorder := True\<rparr>"

section \<open>main\<close>

datatype 'w bootStep =
    NewManager managerOptions "goerr option"
  | SetupController "'w controllerSetup" "goerr option"
  | AddHealthz "goerr option"
  | AddReadyz "goerr option"
  | StartManager "goerr option"

text \<open>
  \<open>main\<close> with its arguments and the environment variable; it returns the code the process exits with, the
  steps it took, and the world. \<open>GetConfigOrDie\<close> exits with 1.
\<close>

definition bootMain ::
    "'w boot \<Rightarrow> 'z libFlags \<Rightarrow> 'z \<Rightarrow> string list \<Rightarrow> string \<Rightarrow> 'w \<Rightarrow> nat \<times> 'w bootStep list \<times> 'w" where
  "bootMain B lib z args interval w =
     (case flagParse lib args (defaultOptions, z) of
        Inl code \<Rightarrow> (code, [], w)
      | Inr (opt, z) \<Rightarrow>
          (let mo = managerOptionsFor opt in
           if \<not> configOK B then (1, [], w)
           else case newManager B mo w of
             (Some err, w) \<Rightarrow> (1, [NewManager mo (Some err)], w)
           | (None, w) \<Rightarrow>
               (let c = SetupWithManager B (newReconciler B mo) (intervalFrom interval) in
                case completeController B c w of
                  (Some err, w) \<Rightarrow> (1, [NewManager mo None, SetupController c (Some err)], w)
                | (None, w) \<Rightarrow>
                    (case addHealthzCheck B w of
                       (Some err, w) \<Rightarrow> (1, [NewManager mo None, SetupController c None, AddHealthz (Some err)], w)
                     | (None, w) \<Rightarrow>
                         (case addReadyzCheck B w of
                            (Some err, w) \<Rightarrow>
                              (1, [NewManager mo None, SetupController c None, AddHealthz None, AddReadyz (Some err)], w)
                          | (None, w) \<Rightarrow>
                              (case managerStart B w of
                                 (Some err, w) \<Rightarrow>
                                   (1, [NewManager mo None, SetupController c None, AddHealthz None, AddReadyz None,
                                        StartManager (Some err)], w)
                               | (None, w) \<Rightarrow>
                                   (0, [NewManager mo None, SetupController c None, AddHealthz None, AddReadyz None,
                                        StartManager None], w)))))))"

section \<open>The order of the start-up\<close>

text \<open>
  The specification: the five steps in this order, none after one that failed; the process exits with 0
  only if the manager ran and ended without error.
\<close>

definition bootOrder :: "managerOptions \<Rightarrow> 'w controllerSetup \<Rightarrow> (goerr option \<Rightarrow> 'w bootStep) list" where
  "bootOrder mo c = [NewManager mo, SetupController c, AddHealthz, AddReadyz, StartManager]"

definition bootRun :: "managerOptions \<Rightarrow> 'w controllerSetup \<Rightarrow> nat \<Rightarrow> 'w bootStep list \<Rightarrow> bool" where
  "bootRun mo c code steps \<longleftrightarrow>
     (\<exists>prior step later. bootOrder mo c = prior @ step # later \<and>
       ((\<exists>err. steps = map (\<lambda>f. f None) prior @ [step (Some err)] \<and> code = 1) \<or>
        (steps = map (\<lambda>f. f None) prior @ [step None] \<and> later = [] \<and> code = 0)))"

lemma bootRun_failed:
  "bootOrder mo c = prior @ step # later \<Longrightarrow> steps = map (\<lambda>f. f None) prior @ [step (Some err)] \<Longrightarrow> bootRun mo c 1 steps"
  unfolding bootRun_def by blast

lemma bootRun_finished:
  "bootOrder mo c = prior @ [step] \<Longrightarrow> steps = map (\<lambda>f. f None) prior @ [step None] \<Longrightarrow> bootRun mo c 0 steps"
  unfolding bootRun_def by blast

lemma bootRun_options:
  assumes "bootRun mo c code steps" and "NewManager mo' e \<in> set steps"
  shows "mo' = mo"
proof -
  obtain prior step later e' where s: "bootOrder mo c = prior @ step # later"
      "steps = map (\<lambda>f. f None) prior @ [step e']"
    using assms(1) unfolding bootRun_def by blast
  then have "\<exists>f e''. f \<in> set (bootOrder mo c) \<and> f e'' = NewManager mo' e" using assms(2) by force
  then show ?thesis by (auto simp: bootOrder_def)
qed

lemma bootMain_run:
  assumes "bootMain B lib z args interval w = (code, steps, w')"
    and "flagParse lib args (defaultOptions, z) = Inr (opt, z')" and "configOK B"
  shows "bootRun (managerOptionsFor opt)
      (SetupWithManager B (newReconciler B (managerOptionsFor opt)) (intervalFrom interval)) code steps"
    (is "bootRun ?mo ?c code steps")
proof -
  have order: "bootOrder ?mo ?c = [] @ NewManager ?mo # [SetupController ?c, AddHealthz, AddReadyz, StartManager]"
    "bootOrder ?mo ?c = [NewManager ?mo] @ SetupController ?c # [AddHealthz, AddReadyz, StartManager]"
    "bootOrder ?mo ?c = [NewManager ?mo, SetupController ?c] @ AddHealthz # [AddReadyz, StartManager]"
    "bootOrder ?mo ?c = [NewManager ?mo, SetupController ?c, AddHealthz] @ AddReadyz # [StartManager]"
    "bootOrder ?mo ?c = [NewManager ?mo, SetupController ?c, AddHealthz, AddReadyz] @ [StartManager]"
    by (simp_all add: bootOrder_def)
  note failed = order [THEN bootRun_failed, OF refl] and finished = order(5) [THEN bootRun_finished, OF refl]
  show ?thesis
    using assms(1) unfolding bootMain_def assms(2)
    by (auto simp: assms(3) Let_def intro: failed [simplified] finished [simplified] split: prod.splits option.splits)
qed

section \<open>What the flags leave alone\<close>

definition mentions :: "string \<Rightarrow> string list \<Rightarrow> bool" where
  "mentions name args \<longleftrightarrow> list_ex (sublist name) args"

lemma splitValue_sublist:
  assumes "flagName s \<noteq> []" and "splitValue (flagName s) = (name, v)"
  shows "sublist name s"
proof -
  obtain c t where ct: "flagName s = c # t" using assms(1) by (cases "flagName s") auto
  then have "flagName s = name @ dropWhile (\<lambda>c. c \<noteq> CHR ''='') t"
    using assms(2) by (auto simp: splitValue_def Let_def)
  moreover obtain p where "s = p @ flagName s" by (metis append_take_drop_id flagName_def)
  ultimately show ?thesis by (metis sublist_appendI)
qed

text \<open>A field of the options that only one flag sets keeps its value if no argument mentions the flag.\<close>

lemma setFlag_keeps:
  assumes "setFlag lib name' v st = Some st'"
  shows "name' \<noteq> ''enable-http2'' \<longrightarrow> enableHTTP2 (fst st') = enableHTTP2 (fst st)"
    and "name' \<noteq> ''metrics-secure'' \<longrightarrow> secureMetrics (fst st') = secureMetrics (fst st)"
  using assms by (auto simp: setFlag_def setOption_def split: if_splits option.splits)

lemma flagParse_step:
  assumes "flagParse lib (s # args) st = Inr st'"
  shows "st' = st \<or> (\<exists>name v st1 rest. setFlag lib name v st = Some st1 \<and> sublist name s \<and>
    flagParse lib rest st1 = Inr st' \<and> suffix rest args)"
proof (cases "flagParse lib (s # args) st = Inr st")
  case True
  then show ?thesis using assms by simp
next
  case False
  then have ok: "flagName s \<noteq> []" using assms by (auto simp: Let_def split: if_splits)
  obtain name v where sv: "splitValue (flagName s) = (name, v)" by (metis surj_pair)
  have "\<exists>v st1 rest. setFlag lib name v st = Some st1 \<and> flagParse lib rest st1 = Inr st' \<and> suffix rest args"
    using assms False unfolding flagParse.simps Let_def sv prod.case
    by (auto split: if_splits option.splits bool.splits list.splits) (blast intro: suffix_ConsI suffix_order.refl)+
  then show ?thesis using splitValue_sublist [OF ok sv] by blast
qed

lemma flagParse_keeps:
  assumes keeps: "\<And>name' v st st'. setFlag lib name' v st = Some st' \<Longrightarrow> name' \<noteq> name \<longrightarrow> field st' = field st"
  shows "flagParse lib args st = Inr st' \<Longrightarrow> \<not> mentions name args \<Longrightarrow> field st' = field st"
proof (induction args arbitrary: st rule: length_induct)
  case (1 args)
  show ?case
  proof (cases args)
    case Nil
    then show ?thesis using 1(2) by simp
  next
    case (Cons s rest)
    from flagParse_step [OF 1(2) [unfolded Cons]] show ?thesis
    proof (elim disjE exE conjE)
      fix name' v st1 args1
      assume step: "setFlag lib name' v st = Some st1" "sublist name' s" "flagParse lib args1 st1 = Inr st'" "suffix args1 rest"
      have "name' \<noteq> name" "\<not> mentions name args1"
        using 1(3) Cons step(2,4) by (auto simp: mentions_def list_ex_iff dest: set_mono_suffix)
      moreover have "length args1 < length args" using Cons suffix_length_le [OF step(4)] by simp
      ultimately have "field st' = field st1" using 1(1) step(3) by blast
      then show ?thesis using keeps [OF step(1)] \<open>name' \<noteq> name\<close> by simp
    qed simp
  qed
qed

text \<open>The flags by which the servers can be made less safe.\<close>

lemma parsed_defaults:
  assumes "flagParse lib args (defaultOptions, z) = Inr (opt, z')"
  shows "\<not> mentions ''enable-http2'' args \<Longrightarrow> \<not> enableHTTP2 opt"
    and "\<not> mentions ''metrics-secure'' args \<Longrightarrow> secureMetrics opt"
  using flagParse_keeps [of lib "''enable-http2''" "enableHTTP2 \<circ> fst", OF _ assms]
    flagParse_keeps [of lib "''metrics-secure''" "secureMetrics \<circ> fst", OF _ assms]
    setFlag_keeps [where lib = lib]
  by (simp_all add: defaultOptions_def)

lemma disableHTTP2_fold: "NextProtos (fold (\<lambda>f. f) [disableHTTP2] tls) = [''http/1.1'']"
  by (simp add: disableHTTP2_def)

lemma intervalFrom_bounds: "- (2 ^ 63) \<le> intervalFrom v \<and> intervalFrom v < 2 ^ 63"
  using parseDuration_bounds [of v] by (auto simp: intervalFrom_def ReconcileInterval_def split: option.split)

text \<open>A reconcile is requeued after the interval or, without a delay, by its error or not at all.\<close>

lemma Reconcile_requeue: "Reconcile E interval key s = ((d, r), s') \<Longrightarrow> d = 0 \<or> d = interval \<and> r = None"
  by (auto simp: Reconcile_def reconcileSpec_def handleDeletionAndStatus_def Let_def
      split: prod.splits sum.splits option.splits if_splits)

section \<open>Properties\<close>

text \<open>
  C38. A start that the flags do not end, with a cluster configuration, is a run of the five steps in
  order: the manager starts only after the controller, the health check and the ready check were set up,
  and the process exits with 0 exactly if the manager ran and returned without error. Otherwise it exits
  before any step, with the code of the flag parser or 1. Unless an argument mentions the flag that
  changes it, HTTP/2 is off on both servers, and metrics are served over TLS to authorized clients only.
  The controller has a reader that goes past the cache.
\<close>

theorem manager_starts_ready:
  assumes "bootMain B lib z args interval w = (code, steps, w')"
  shows "case flagParse lib args (defaultOptions, z) of
      Inl code' \<Rightarrow> steps = [] \<and> code = code'
    | Inr (opt, _) \<Rightarrow>
        (let mo = managerOptionsFor opt; r = newReconciler B mo in
         if configOK B
         then bootRun mo (SetupWithManager B r (intervalFrom interval)) code steps \<and> apiReader r = Some (managerReader B) \<and>
           (\<not> mentions ''enable-http2'' args \<longrightarrow>
             (\<forall>tls. NextProtos (fold (\<lambda>f. f) (webhookTLSOpts mo) tls) = [''http/1.1''] \<and>
               NextProtos (fold (\<lambda>f. f) (metricsTLSOpts (Metrics mo)) tls) = [''http/1.1''])) \<and>
           (\<not> mentions ''metrics-secure'' args \<longrightarrow>
             SecureServing (Metrics mo) \<and> FilterProvider (Metrics mo) = Some WithAuthenticationAndAuthorization)
         else steps = [] \<and> code = 1)"
proof (cases "flagParse lib args (defaultOptions, z)")
  case (Inl code')
  then show ?thesis using assms by (simp add: bootMain_def)
next
  case (Inr st)
  obtain opt z' where st: "st = (opt, z')" by (cases st)
  note parsed = Inr [unfolded st]
  show ?thesis
  proof (cases "configOK B")
    case True
    have "bootRun (managerOptionsFor opt) (SetupWithManager B (newReconciler B (managerOptionsFor opt)) (intervalFrom interval)) code steps"
      by (rule bootMain_run [OF assms parsed True])
    then show ?thesis
      using True parsed_defaults [OF parsed] disableHTTP2_fold
      by (simp add: parsed Let_def newReconciler_def managerOptionsFor_def)
  next
    case False
    then show ?thesis using assms by (simp add: parsed bootMain_def Let_def)
  qed
qed

text \<open>A start-up in which the ready check cannot be added.\<close>

definition demoBoot :: "mem boot" where
  "demoBoot = \<lparr>configOK = True, generationChanged = (\<lambda>ev. True), annotationChanged = (\<lambda>ev. True),
     newManager = (\<lambda>mo w. (None, w)), managerClient = (\<lambda>mo. memEnv), managerReader = memGet,
     completeController = (\<lambda>c w. (None, w)), addHealthzCheck = (\<lambda>w. (None, w)),
     addReadyzCheck = (\<lambda>w. (Some (ErrNew ''duplicate check''), w)), managerStart = (\<lambda>w. (None, w))\<rparr>"

definition zapFlags :: "string libFlags" where
  "zapFlags name = (if name = ''zap-log-level'' then Some (False, \<lambda>v z. Some v) else None)"

theorem manager_starts_ready_witness:
  "\<exists>mo (c :: mem controllerSetup) steps. bootRun mo c 1 steps \<and> steps \<noteq> [] \<and> StartManager None \<notin> set steps \<and> LeaderElection mo \<and>
     SecureServing (Metrics mo) \<and> apiReader (newReconciler demoBoot mo) = Some memGet"
proof -
  let ?args = "[''--leader-elect'', ''-zap-log-level'', ''info'']"
  let ?mo = "managerOptionsFor (defaultOptions\<lparr>enableLeaderElection := True\<rparr>)"
  have flags: "flagParse zapFlags ?args (defaultOptions, []) =
      Inr (defaultOptions\<lparr>enableLeaderElection := True\<rparr>, ''info'')"
    by (simp add: flagName_def splitValue_def flagKind_def setFlag_def setOption_def stringFlags_def boolFlags_def
        zapFlags_def parseBool_def)
  have "\<not> mentions ''metrics-secure'' ?args" by (simp add: mentions_def sublist_code)
  moreover obtain steps w' where run: "bootMain demoBoot zapFlags [] ?args ''1h'' demoMem = (1, steps, w')"
      and ends: "steps \<noteq> []" "StartManager None \<notin> set steps"
    by (simp add: bootMain_def flags Let_def demoBoot_def del: flagParse.simps)
  moreover have "configOK demoBoot" "managerReader demoBoot = memGet" by (simp_all add: demoBoot_def)
  ultimately have "bootRun ?mo (SetupWithManager demoBoot (newReconciler demoBoot ?mo) (intervalFrom ''1h'')) 1 steps \<and>
      SecureServing (Metrics ?mo) \<and> apiReader (newReconciler demoBoot ?mo) = Some memGet"
    using manager_starts_ready [OF run] unfolding flags sum.case prod.case Let_def by simp
  moreover have "LeaderElection ?mo" by (simp add: managerOptionsFor_def Let_def)
  ultimately show ?thesis using ends by blast
qed

text \<open>
  C39. A reconcile interval spelled as whole numbers with units, such as \<^verbatim>\<open>1h30m\<close>, with or without a minus
  sign, is taken over exactly, in nanoseconds, as long as it fits 64 bits, and a reconcile of the
  controller set up with it either asks to be run again after exactly that time, or sets no delay. Whatever
  the variable holds, the interval fits 64 bits.
\<close>

theorem interval_roundtrip:
  assumes "ps \<noteq> []" and "knownUnits ps" and "nanoseconds ps < 2 ^ 63"
  shows "intervalFrom (spell ps) = int (nanoseconds ps) \<and>
    intervalFrom (CHR ''-'' # spell ps) = - int (nanoseconds ps) \<and>
    (\<forall>key s. case reconciler (SetupWithManager B r (intervalFrom (spell ps))) key s of
      ((delay, err), _) \<Rightarrow> delay = 0 \<or> (delay = int (nanoseconds ps) \<and> err = None)) \<and>
    (\<forall>v. - (2 ^ 63) \<le> intervalFrom v \<and> intervalFrom v < 2 ^ 63)"
proof -
  note spelled = parseDuration_spell [OF assms]
  have "spell ps \<noteq> []" by (rule spell_nonempty [OF assms(1,2)]) simp
  then have "intervalFrom (spell ps) = int (nanoseconds ps)" by (simp add: intervalFrom_def spelled)
  moreover have "intervalFrom (CHR ''-'' # spell ps) = - int (nanoseconds ps)" by (simp add: intervalFrom_def spelled)
  ultimately show ?thesis
    using intervalFrom_bounds by (auto simp: SetupWithManager_def split: prod.split dest: Reconcile_requeue)
qed

theorem interval_roundtrip_witness:
  "intervalFrom ''1h30m'' = 5400000000000"
proof -
  have "spell [(1, ''h''), (30, ''m'')] = ''1h30m''" by (simp add: spell_def digits.simps char_of_eq_iff)
  moreover have "nanoseconds [(1, ''h''), (30, ''m'')] = 5400000000000" by (simp add: nanoseconds_def unitMap_def)
  ultimately show ?thesis
    using interval_roundtrip [where ps = "[(1, ''h''), (30, ''m'')]" and B = demoBoot and r = memEnv] by (simp add: knownUnits_def unitMap_def)
qed

end
