(* ===== verification/Registration.thy ===== *)
theory Registration
  imports Complex_Main World
begin

text \<open>
  What the program does before \<open>main\<close>: the variables and \<open>init\<close> functions of the packages, in the order of
  their imports. \<^verbatim>\<open>api/v1\<close> puts its types into a scheme builder (\<^verbatim>\<open>groupversion_info.go\<close>),
  \<^verbatim>\<open>internal/controller\<close> registers its metrics (\<^verbatim>\<open>metrics.go\<close>), and \<^verbatim>\<open>cmd/main.go\<close> builds the scheme. The
  registries are libraries'; a panic in them is \<open>None\<close>.
\<close>

section \<open>Metrics\<close>

datatype buckets = ExponentialBuckets rat rat nat

datatype vecKind = CounterVec | HistogramVec buckets | GaugeVec

record metricVec =
  vecKind :: vecKind
  vecName :: string
  vecHelp :: string
  vecLabels :: "string list"

definition syncSuccessCounter :: metricVec where
  "syncSuccessCounter = \<lparr>vecKind = CounterVec, vecName = ''namespacesync_sync_success_total'',
     vecHelp = ''Number of successful resource synchronizations'', vecLabels = [''namespace'', ''resource_type'']\<rparr>"

definition syncFailureCounter :: metricVec where
  "syncFailureCounter = \<lparr>vecKind = CounterVec, vecName = ''namespacesync_sync_failure_total'',
     vecHelp = ''Number of failed resource synchronizations'', vecLabels = [''namespace'', ''resource_type'']\<rparr>"

definition syncConflictCounter :: metricVec where
  "syncConflictCounter = \<lparr>vecKind = CounterVec, vecName = ''namespacesync_sync_conflict_total'',
     vecHelp = ''Number of resource synchronizations skipped because another owner holds the object'',
     vecLabels = [''namespace'', ''resource_type'']\<rparr>"

definition cleanupSuccessCounter :: metricVec where
  "cleanupSuccessCounter = \<lparr>vecKind = CounterVec, vecName = ''namespacesync_cleanup_success_total'',
     vecHelp = ''Number of successful resource cleanups'', vecLabels = [''namespace'', ''resource_type'']\<rparr>"

definition cleanupFailureCounter :: metricVec where
  "cleanupFailureCounter = \<lparr>vecKind = CounterVec, vecName = ''namespacesync_cleanup_failure_total'',
     vecHelp = ''Number of failed resource cleanups'', vecLabels = [''namespace'', ''resource_type'']\<rparr>"

definition syncDurationHistogram :: metricVec where
  "syncDurationHistogram = \<lparr>vecKind = HistogramVec (ExponentialBuckets (1 / 100) 2 10),
     vecName = ''namespacesync_sync_duration_seconds'', vecHelp = ''Duration of sync operations in seconds'',
     vecLabels = [''namespace'', ''resource_type'']\<rparr>"

definition resourceCount :: metricVec where
  "resourceCount = \<lparr>vecKind = GaugeVec, vecName = ''namespacesync_managed_resources'',
     vecHelp = ''Number of resources being managed by NamespaceSync'', vecLabels = [''namespace'', ''resource_type'']\<rparr>"

lemmas metricVec_defs = syncSuccessCounter_def syncFailureCounter_def syncConflictCounter_def
  cleanupSuccessCounter_def cleanupFailureCounter_def syncDurationHistogram_def resourceCount_def

definition collectors :: "metricVec list" where
  "collectors = [syncSuccessCounter, syncFailureCounter, syncConflictCounter, cleanupSuccessCounter,
     cleanupFailureCounter, syncDurationHistogram, resourceCount]"

text \<open>The vector each counter of the state stands for.\<close>

fun counterVec :: "counter \<Rightarrow> metricVec" where
  "counterVec SyncSuccess = syncSuccessCounter"
| "counterVec SyncFailure = syncFailureCounter"
| "counterVec SyncConflict = syncConflictCounter"
| "counterVec CleanupSuccess = cleanupSuccessCounter"
| "counterVec CleanupFailure = cleanupFailureCounter"

section \<open>The scheme\<close>

definition GroupName :: string where
  "GroupName = ''sync.nsync.dev''"

definition Version :: string where
  "Version = ''v1''"

definition GroupVersion :: "string \<times> string" where
  "GroupVersion = (GroupName, Version)"

text \<open>
  The libraries: a scheme builder (\<^verbatim>\<open>scheme.Builder\<close>), which collects types and later adds them to a
  scheme, client-go's \<open>AddToScheme\<close>, and the metrics registry.
\<close>

record ('b, 'k, 'm) registries =
  newBuilder :: "string \<times> string \<Rightarrow> 'b"
  registerTypes :: "string list \<Rightarrow> 'b \<Rightarrow> 'b"
  builderAddToScheme :: "'b \<Rightarrow> 'k \<Rightarrow> goerr option \<times> 'k"
  clientgoAddToScheme :: "'k \<Rightarrow> goerr option \<times> 'k"
  newScheme :: 'k
  mustRegister :: "metricVec list \<Rightarrow> 'm \<Rightarrow> 'm option"

definition SchemeBuilder :: "('b, 'k, 'm) registries \<Rightarrow> 'b" where
  "SchemeBuilder R = newBuilder R GroupVersion"

definition AddToScheme :: "('b, 'k, 'm) registries \<Rightarrow> 'b \<Rightarrow> 'k \<Rightarrow> goerr option \<times> 'k" where
  "AddToScheme R = builderAddToScheme R"

text \<open>
  The \<open>init\<close> functions; \<open>utilruntime.Must\<close> panics on an error. \<open>AddToScheme\<close> is bound to the builder when
  its package starts and called after its types are in it.
\<close>

definition typesInit :: "('b, 'k, 'm) registries \<Rightarrow> 'b" where
  "typesInit R = registerTypes R [''NamespaceSync'', ''NamespaceSyncList''] (SchemeBuilder R)"

definition metricsInit :: "('b, 'k, 'm) registries \<Rightarrow> 'm \<Rightarrow> 'm option" where
  "metricsInit R = mustRegister R collectors"

definition schemeInit :: "('b, 'k, 'm) registries \<Rightarrow> 'b \<Rightarrow> 'k option" where
  "schemeInit R b =
     (case clientgoAddToScheme R (newScheme R) of
        (Some err, k) \<Rightarrow> None
      | (None, k) \<Rightarrow>
          (case AddToScheme R b k of
             (Some err, k) \<Rightarrow> None
           | (None, k) \<Rightarrow> Some k))"

definition programInit :: "('b, 'k, 'm) registries \<Rightarrow> 'm \<Rightarrow> ('k \<times> 'm) option" where
  "programInit R m =
     (case metricsInit R m of
        None \<Rightarrow> None
      | Some m \<Rightarrow> (case schemeInit R (typesInit R) of None \<Rightarrow> None | Some k \<Rightarrow> Some (k, m)))"

section \<open>The program starts\<close>

text \<open>
  What the libraries document. Prometheus: registering panics only for an invalid or repeated name or
  label, and makes the names known. The scheme: building it adds the types registered to the builder
  under its group and version, and fails only for a type that is known as another one; adding types
  forgets none.
\<close>

definition validMetricName :: "string \<Rightarrow> bool" where
  "validMetricName s \<longleftrightarrow> s \<noteq> [] \<and> list_all (\<lambda>c. c \<in> set (CHR ''_'' # CHR '':'' # ''abcdefghijklmnopqrstuvwxyz'')) s"

definition registersFresh :: "(metricVec list \<Rightarrow> 'm \<Rightarrow> 'm option) \<Rightarrow> ('m \<Rightarrow> string set) \<Rightarrow> bool" where
  "registersFresh f names \<longleftrightarrow> (\<forall>vs m. list_all (\<lambda>v. validMetricName (vecName v) \<and> list_all validMetricName (vecLabels v) \<and>
     distinct (vecLabels v)) vs \<longrightarrow> distinct (map vecName vs) \<longrightarrow> set (map vecName vs) \<inter> names m = {} \<longrightarrow>
     (\<exists>m'. f vs m = Some m' \<and> names m' = names m \<union> set (map vecName vs)))"

definition buildsScheme ::
    "('b, 'k, 'm) registries \<Rightarrow> ('k \<Rightarrow> (string \<times> string \<times> string) set) \<Rightarrow> bool" where
  "buildsScheme R known \<longleftrightarrow>
     (\<exists>k. clientgoAddToScheme R (newScheme R) = (None, k) \<and> (\<forall>g v t. (g, v, t) \<in> known k \<longrightarrow> g \<noteq> GroupName)) \<and>
     (\<forall>g v ts k. (\<forall>t \<in> set ts. (g, v, t) \<notin> known k) \<longrightarrow>
       (\<exists>k'. builderAddToScheme R (registerTypes R ts (newBuilder R (g, v))) k = (None, k') \<and>
         known k \<union> {(g, v, t) | t. t \<in> set ts} \<subseteq> known k'))"

lemma collectors_valid:
  "list_all (\<lambda>v. validMetricName (vecName v) \<and> list_all validMetricName (vecLabels v) \<and> distinct (vecLabels v)) collectors"
  by (simp add: collectors_def metricVec_defs validMetricName_def)

lemma collectors_distinct: "distinct (map vecName collectors)"
  by (simp add: collectors_def metricVec_defs)

lemma collectors_prefix: "n \<in> set (map vecName collectors) \<Longrightarrow> take 14 n = ''namespacesync_''"
  by (auto simp: collectors_def metricVec_defs)

text \<open>Each counter is a registered vector of its own, and takes the two label values it is counted under.\<close>

lemma counterVec_registered: "counterVec c \<in> set collectors \<and> length (vecLabels (counterVec c)) = 2"
  by (cases c) (simp_all add: collectors_def metricVec_defs)

lemma counterVec_inj: "counterVec c = counterVec c' \<longleftrightarrow> c = c'"
  by (cases c; cases c') (simp_all add: metricVec_defs)

text \<open>No package panics, every metric is registered, and the scheme knows both types.\<close>

lemma programInit_succeeds:
  assumes "registersFresh (mustRegister R) names" and "buildsScheme R known"
    and fresh: "\<And>n. n \<in> names m \<Longrightarrow> take 14 n \<noteq> ''namespacesync_''"
  shows "\<exists>k m'. programInit R m = Some (k, m') \<and> names m' = names m \<union> set (map vecName collectors) \<and>
    (\<forall>t \<in> {''NamespaceSync'', ''NamespaceSyncList''}. (GroupName, Version, t) \<in> known k)"
proof -
  have "set (map vecName collectors) \<inter> names m = {}" using fresh collectors_prefix by blast
  then obtain m' where m': "metricsInit R m = Some m'" "names m' = names m \<union> set (map vecName collectors)"
    using assms(1) collectors_valid collectors_distinct unfolding registersFresh_def metricsInit_def by blast
  obtain k where k: "clientgoAddToScheme R (newScheme R) = (None, k)"
      "\<forall>t \<in> set [''NamespaceSync'', ''NamespaceSyncList'']. (GroupName, Version, t) \<notin> known k"
    using assms(2) unfolding buildsScheme_def by blast
  then obtain k' where "builderAddToScheme R (typesInit R) k = (None, k')"
      "known k \<union> {(GroupName, Version, t) | t. t \<in> set [''NamespaceSync'', ''NamespaceSyncList'']} \<subseteq> known k'"
    using assms(2) unfolding buildsScheme_def typesInit_def SchemeBuilder_def GroupVersion_def by blast
  then show ?thesis using m' k by (auto simp: programInit_def schemeInit_def AddToScheme_def)
qed

end
