(* ===== verification/Spec2Isabelle.thy ===== *)
theory Spec2Isabelle
  imports ReconcileProperties ComponentProperties Convergence DeepCopy Manager Registration
begin

text \<open>
  A verification development of the namespace-sync controller
  (\<^verbatim>\<open>github.com/somaz94/k8s-namespace-sync\<close>), a Kubernetes operator in Go. A custom resource, the
  NamespaceSync, names Secrets and ConfigMaps of a source namespace; the controller keeps copies of them
  in other namespaces, removes copies whose source is gone, and cleans up when the NamespaceSync is
  deleted. Several NamespaceSyncs may overlap, so every write is subject to conflict rules.

  \<^bold>\<open>The program and the theories.\<close> One call of \<open>Reconcile\<close> reads a NamespaceSync, validates it, puts a
  finalizer on it, lists the namespaces and the other NamespaceSyncs (its peers), syncs each resource
  into each targeted namespace, and writes the status. The theories follow the files of
  \<^verbatim>\<open>internal/controller\<close>:

  \<^item> \<open>Prelude\<close>: Go maps, theorem collections, generic lemmas. \<open>GoLib\<close>: the parts of Go's standard library
    the code uses (strings, errors, \<open>%q\<close>, UTF-8, RFC 3339). \<open>Glob\<close>: \<open>path.Match\<close>, loop for loop, and
    \<open>GlobSpec\<close>: patterns as parsed tokens, a declarative matching relation, and the proof that the
    loops decide it.
  \<^item> \<open>Api\<close>: the types of \<^verbatim>\<open>api/v1/namespacesync_types.go\<close> as records with the source's fields, and the
    objects of the cluster the code reads or writes.
  \<^item> \<open>World\<close>: the state threaded through every operation (the outside world, the metrics of
    \<^verbatim>\<open>metrics.go\<close>, the recorded events, and a history of client calls for the specifications), the
    environment record (see below), and protocols: what a part of the history may look like.
  \<^item> \<open>Filters\<close>: \<^verbatim>\<open>filters.go\<close>. \<open>Conflicts\<close>: \<^verbatim>\<open>conflicts.go\<close> and the policy it implements. \<open>Resources\<close>:
    \<^verbatim>\<open>resources.go\<close> (metadata of a copy, create or update, guarded deletes, cleanup, deletion), and
    \<open>Cleanup\<close>: what a cleanup deletes and leaves. \<open>Sync\<close>: \<^verbatim>\<open>sync.go\<close>, with the specification \<open>syncRun\<close> of
    one resource and \<open>listRun\<close> of a list. \<open>Status\<close>: validation and status of \<^verbatim>\<open>utils.go\<close>. \<open>Controller\<close>:
    \<^verbatim>\<open>namespacesync_controller.go\<close>, with the specification \<open>reconcileRun\<close>. \<open>EventMap\<close>: \<^verbatim>\<open>events.go\<close>, and the
    events the controller's predicate passes over.
  \<^item> \<open>Safety\<close>: what follows from \<open>reconcileRun\<close> about writes, the finalizer and the reported status.
    \<open>Progress\<close>: what a reconcile does when its calls succeed, and how many calls it makes. \<open>Registers\<close>:
    from the history of calls to the objects stored, one object at a time. \<open>Stability\<close>: what the
    reconciles of several NamespaceSyncs leave of each other's copies. \<open>ReconcileProperties\<close>,
    \<open>ComponentProperties\<close> and \<open>Convergence\<close>: the properties with their witnesses.
  \<^item> \<open>GoHeap\<close> and \<open>DeepCopy\<close>: a heap with Go's slices, maps and pointers, and the generated
    \<^verbatim>\<open>api/v1/zz_generated.deepcopy.go\<close> over it; the controller changes cached objects only after such a
    copy, and these theories show that a copy shares nothing with its original.
  \<^item> \<open>Manager\<close>: \<^verbatim>\<open>cmd/main.go\<close> (flags, options of the servers and of the manager, the reconcile interval, the
    logger's options, the start-up in its order) and \<open>SetupWithManager\<close>, with \<open>Duration\<close>, Go's
    \<open>time.ParseDuration\<close>. \<open>Registration\<close>: what runs before \<open>main\<close>: the metrics of \<^verbatim>\<open>metrics.go\<close> and the API
    types of \<^verbatim>\<open>groupversion_info.go\<close> are registered, and no package panics.
  \<^item> \<open>Samples\<close>, \<open>MemServer\<close>, \<open>MemLaws\<close>: concrete objects, an in-memory API server, and the proof that it
    satisfies every hypothesis the properties make; used by the witnesses only.

  \<^bold>\<open>How code becomes definitions.\<close> Definitions keep the names of the Go functions. A method takes the
  environment for its receiver, its arguments, and the state, and returns its results and the state. An
  \<open>error\<close> result is an option or the left of a sum, so every early return is a branch. A loop is a
  recursive function over the list it ranges over, with the variables it updates as parameters; no loop
  needs fuel. Ranging over a map visits the keys in order, and \<open>copyKeys_order_irrelevant\<close> shows that
  the order does not matter. Logging is left out. A function passed to \<open>retry.RetryOnConflict\<close> is a
  definition of its own (\<open>updateStatusOnce\<close>, \<open>updateInvalidSpecStatusOnce\<close>, \<open>addFinalizerOnce\<close>).

  \<^bold>\<open>Parameters.\<close> What \<^verbatim>\<open>src/\<close> does not contain is a field of the environment record \<open>env\<close>: the Kubernetes
  client (which may answer anything, and change the world, at every call), the uncached reader, the
  clock, and functions of the Kubernetes libraries. Properties that need more name what they assume,
  each documented behaviour of those libraries: reads return the object asked for (\<open>getsAsked\<close>,
  \<open>syncsAsked\<close>), namespace names are distinct (\<open>listsDistinct\<close>), a retry returns the result of its last
  attempt and retries only errors (\<open>retriesRuns\<close>), semantic equality of objects that differ in content,
  labels and annotations only compares these, nil and empty maps being equal (\<open>semanticEquality\<close>), the
  predicates of controller-runtime look at generation and annotations (\<open>changePredicates\<close>), and the finalizer
  functions change finalizers only (\<open>finalizerLaws\<close>). What the server stores of a write of a NamespaceSync is
  \<open>storedBy\<close>. The witnesses show that all of this can hold, mostly of the in-memory \<open>memEnv\<close>. The deep copies of \<^verbatim>\<open>metav1\<close> types are the record \<open>metav1\<close>, with the contract
  \<open>metaCopies\<close> (each is a \<open>deep_copier\<close>); the libraries' side of the start-up is the record \<open>boot\<close>, about
  which nothing is assumed, those of the registration the record \<open>registries\<close>, and the flags that libraries define are a parameter of the flag parser.

  \<^bold>\<open>What the lemmas show.\<close> The code's functions are proved to be runs of abstract specifications
  (\<open>syncRun\<close>, \<open>listRun\<close>, \<open>sweepRun\<close>, \<open>reconcileRun\<close>; \<open>mayWrite\<close>, the README's policy, for the
  conflict checks, and \<open>overwriteAllowed\<close>, the part of it that the guard of an existing object decides;
  \<open>gmatch\<close> for patterns; \<open>validSpec\<close> for validation; \<open>readyOutcome\<close> for the Ready condition). From these
  follow safety (which writes can happen, right after which read, and where), completeness (the status
  reports what happened; a released finalizer means that no copy is left), progress and bounds on the
  calls, coverage of the watches (and which events they pass over), and convergence. Convergence is stated
  under conditions of its own, each named in the statements: the calls at hand are the only ones that write
  a source and the object its copy is kept in, and the server stores what admission, a function \<open>A\<close>, makes
  of what is sent (\<open>onlyWriter\<close>); reads of the two through the client's cache are not stale (\<open>freshReads\<close>;
  uncached reads never are); and, as the README asks of it, admission only adds the same labels and
  annotations every time (\<open>quietAdmission\<close>). Then a reported sync is a sync, the next reconcile leaves
  it as it is, and no sequence of reconciles of NamespaceSyncs that see the claim on a place disturbs it. Deep copies mean
  the same as their originals and stay independent of them, a start-up runs in order with safe defaults,
  and a spelled interval is read back exactly. Interfaces are locales with interpretations on the code's
  definitions: \<open>deep_copier\<close> (what a deep copy promises, for every type and every block of the generated
  code), \<open>glob_matcher\<close> (the matcher the filter loops call), \<open>owner_search\<close> and
  \<open>preferring_search\<close> (the peer searches), \<open>step_order\<close> and \<open>call_protocol\<close> (relations the loops
  preserve), \<open>copy_kind\<close> (Secrets and ConfigMaps).

  \<^bold>\<open>Limits.\<close> A \<open>Reconcile\<close> is one sequential run; other clients act through the environment's answers, so
  the interleaving with them is covered, but nothing is assumed of what they do. Not modelled: log
  messages (the error texts of
  \<open>time.ParseDuration\<close> and of the flag parser only reach the log or the terminal), and the end-to-end test
  helpers, which run \<^verbatim>\<open>kubectl\<close> and \<^verbatim>\<open>kind\<close>.
\<close>

end
